theory Spec2Isabelle
  imports Main
begin

section \<open>The in-memory file system of reactive-fs (src/memory-fs.ts)\<close>

text \<open>
  The class \<open>MemoryFileSystem\<close> keeps a tree of \<open>Directory\<close> and \<open>File\<close> objects under
  a fixed root directory, an ignore predicate, and an event emitter. Every asynchronous
  operation (\<open>saveFile\<close>, \<open>deleteFile\<close>, ...) is \<open>Promise.try\<close> around the synchronous
  method of the same name with the suffix \<open>Sync\<close>, so the synchronous methods are the
  ones embedded here.

  A method is a function from the store before the call to the outcome and the store
  after the call. The outcome is \<open>Inl\<close> of the error thrown or \<open>Inr\<close> of the value
  returned; the store after the call is returned on both branches, because a JavaScript
  exception does not undo the mutations made before it was thrown. The events given to
  \<open>this.events.emit\<close> are appended to the field \<open>emitted\<close> of the store.
\<close>

subsection \<open>Data model (src/api.ts as used by memory-fs.ts)\<close>

text \<open>
  Modelled from the spec: the classes \<open>File\<close>, \<open>Directory\<close> and \<open>ShallowDirectory\<close> of
  api.ts, which is not among the source files. A file has a name, a full path and an
  optional text content (the constructor is called with and without the third argument),
  and the constructor keeps the content that it is given;
  a directory has a name, a full path and the ordered list of its children.
  \<open>Dir\<close> injects a directory into the union type \<open>File | Directory\<close>.
\<close>

datatype node =
    File string string "string option"
  | Dir directory
and directory =
    Directory (name: string) (fullPath: string) (children: "node list")

fun node_name :: "node \<Rightarrow> string" where
  "node_name (File n fp c) = n"
| "node_name (Dir d) = name d"

fun node_fullPath :: "node \<Rightarrow> string" where
  "node_fullPath (File n fp c) = fp"
| "node_fullPath (Dir d) = fullPath d"

text \<open>The elements of the array returned by \<open>loadDirectoryChildrenSync\<close>.\<close>

datatype shallow_node =
    ShallowFile string string "string option"
  | ShallowDirectory string string

datatype event =
    FileCreated string string
  | FileChanged string string
  | FileDeleted string
  | DirectoryCreated string
  | DirectoryDeleted string

text \<open>The errors thrown are plain \<open>Error\<close> objects that differ in their message:
  one constructor for each message of memory-fs.ts, in source order, with the path that
  the message quotes.\<close>

datatype error =
    UnableToSaveIgnored string
  | RootIsNotALegalFileName
  | UnexpectedNotALegalFileName string
  | FileSaveError string
  | DirectoryIsNotAFile string
  | CantDeleteRoot
  | FileIsNotADirectory string
  | DirectoryIsNotEmpty string
  | UnableToReadAndWriteIgnored string
  | UnableToReadIgnored string
  | FileIsADirectory string
  | CannotFindFile string
  | UnableToReadFolder string

record store =
  root :: directory
  emitted :: "event list"

text \<open>The constructor: \<open>root = new Directory('', '')\<close> and nothing emitted yet.\<close>

definition fresh :: store where
  "fresh = \<lparr>root = Directory [] [] [], emitted = []\<rparr>"

subsection \<open>Path utilities (src/utils.ts and src/api.ts as used by memory-fs.ts)\<close>

text \<open>
  Modelled from the spec: the constant \<open>pathSeparator\<close> of api.ts, the one canonical
  separator; the spec's scenario \<open>saveFile('a/b.txt', 'hi')\<close> fixes it as the slash.
\<close>

definition pathSeparator :: char where
  "pathSeparator = CHR ''/''"

text \<open>JavaScript's \<open>String.prototype.split\<close> for a one-character separator:
  the empty string gives one empty segment.\<close>

fun split_on :: "char \<Rightarrow> string \<Rightarrow> string \<Rightarrow> string list" where
  "split_on sep cur [] = [cur]"
| "split_on sep cur (c # cs) =
     (if c = sep then cur # split_on sep [] cs else split_on sep (cur @ [c]) cs)"

text \<open>
  Modelled from the spec: the helper \<open>getPathNodes\<close> of utils.ts, which is not among the
  source files. It splits a path at the canonical separator and keeps the non-empty
  segments. memory-fs.ts relies on both: the root path \<open>''\<close> has no segment
  (\<open>pathArr.length === 0\<close> in \<open>deleteDirectorySync\<close>, \<open>pathArr.length ? ... : this.root\<close>
  in \<open>loadDirectoryTreeSync\<close>), although splitting the empty string gives one empty
  segment; and \<open>saveFileSync\<close> holds that \<open>getPathTarget\<close>, which gives up at an empty
  name, cannot fail after \<open>ensureDirectorySync\<close>.
\<close>

definition getPathNodes :: "string \<Rightarrow> string list" where
  "getPathNodes path = filter (\<lambda>segment. segment \<noteq> []) (split_on pathSeparator [] path)"

text \<open>\<open>Array.prototype.join\<close> with the separator.\<close>

fun join :: "char \<Rightarrow> string list \<Rightarrow> string" where
  "join sep [] = []"
| "join sep [x] = x"
| "join sep (x # y # ys) = x @ sep # join sep (y # ys)"

subsection \<open>Looking up and replacing children\<close>

text \<open>lodash's \<open>find(children, {name})\<close>: the first child with that name.\<close>

fun find_by_name :: "node list \<Rightarrow> string \<Rightarrow> node option" where
  "find_by_name [] nm = None"
| "find_by_name (c # cs) nm = (if node_name c = nm then Some c else find_by_name cs nm)"

text \<open>
  The tree is mutated in place through references that \<open>find\<close> returned. A directory
  owns its children and nothing else refers to them, so a mutation of the child found
  under a name is the replacement of the first child of that name in its parent's list.
\<close>

fun replace_found :: "string \<Rightarrow> node \<Rightarrow> node list \<Rightarrow> node list" where
  "replace_found nm new [] = []"
| "replace_found nm new (c # cs) =
     (if node_name c = nm then new # cs else c # replace_found nm new cs)"

subsection \<open>getPathTarget\<close>

text \<open>The loop of \<open>getPathTarget\<close>, started at \<open>this.root\<close>; \<open>None\<close> is \<open>null\<close>.
  An array is truthy, so the guard \<open>name && current.children\<close> is \<open>name \<noteq> ''\<close>.\<close>

fun getPathTargetFrom :: "directory \<Rightarrow> string list \<Rightarrow> directory option" where
  "getPathTargetFrom current [] = Some current"
| "getPathTargetFrom current (nm # pathArr) =
     (if nm \<noteq> [] then
        (case find_by_name (children current) nm of
           Some (Dir node) \<Rightarrow> getPathTargetFrom node pathArr
         | _ \<Rightarrow> None)
      else None)"

definition getPathTarget :: "store \<Rightarrow> string list \<Rightarrow> directory option" where
  "getPathTarget st pathArr = getPathTargetFrom (root st) pathArr"

text \<open>
  A mutation of the directory that \<open>getPathTarget\<close> returned: \<open>f\<close> is applied to the
  directory reached along \<open>pathArr\<close>, and every directory on the way holds the updated
  child at the place of the old one.
\<close>

fun updatePathTargetFrom ::
  "(directory \<Rightarrow> directory) \<Rightarrow> directory \<Rightarrow> string list \<Rightarrow> directory" where
  "updatePathTargetFrom f current [] = f current"
| "updatePathTargetFrom f current (nm # pathArr) =
     (case find_by_name (children current) nm of
        Some (Dir node) \<Rightarrow>
          Directory (name current) (fullPath current)
            (replace_found nm (Dir (updatePathTargetFrom f node pathArr)) (children current))
      | _ \<Rightarrow> current)"

subsection \<open>ensureDirectorySync\<close>

text \<open>
  The \<open>reduce\<close> over the path nodes, started at the root. The result is the error thrown
  (if any), the current directory after the mutations made below it, and the events
  emitted, in order.
\<close>

fun ensureFrom :: "directory \<Rightarrow> string list \<Rightarrow> error option \<times> directory \<times> event list" where
  "ensureFrom current [] = (None, current, [])"
| "ensureFrom current (nm # rest) =
     (case find_by_name (children current) nm of
        Some (Dir next) \<Rightarrow>
          (case ensureFrom next rest of
             (err, next', evs) \<Rightarrow>
               (err,
                Directory (name current) (fullPath current)
                  (replace_found nm (Dir next') (children current)),
                evs))
      | Some (File n fp c) \<Rightarrow> (Some (FileIsNotADirectory fp), current, [])
      | None \<Rightarrow>
          (let newDir = Directory nm
                 (if fullPath current \<noteq> [] then fullPath current @ pathSeparator # nm else nm) []
           in case ensureFrom newDir rest of
             (err, newDir', evs) \<Rightarrow>
               (err,
                Directory (name current) (fullPath current) (children current @ [Dir newDir']),
                DirectoryCreated (fullPath newDir) # evs)))"

definition ensureDirectorySync ::
  "(string \<Rightarrow> bool) \<Rightarrow> string \<Rightarrow> store \<Rightarrow> (error + unit) \<times> store" where
  "ensureDirectorySync isIgnored fullPath' st =
     (if isIgnored fullPath' then (Inl (UnableToReadAndWriteIgnored fullPath'), st)
      else
        (case ensureFrom (root st) (getPathNodes fullPath') of
           (err, root', evs) \<Rightarrow>
             ((case err of Some e \<Rightarrow> Inl e | None \<Rightarrow> Inr ()),
              st\<lparr>root := root', emitted := emitted st @ evs\<rparr>)))"

subsection \<open>saveFileSync\<close>

definition saveFileSync ::
  "(string \<Rightarrow> bool) \<Rightarrow> string \<Rightarrow> string \<Rightarrow> store \<Rightarrow> (error + unit) \<times> store" where
  "saveFileSync isIgnored fullPath' newContent st =
     (if isIgnored fullPath' then (Inl (UnableToSaveIgnored fullPath'), st)
      else
        (let nodes = getPathNodes fullPath' in
         if nodes = [] \<or> last nodes = [] then (Inl RootIsNotALegalFileName, st)
         else
           (let nm = last nodes; pathArr = butlast nodes in
            case ensureDirectorySync isIgnored (join pathSeparator pathArr) st of
              (Inl e, st1) \<Rightarrow> (Inl e, st1)
            | (Inr u, st1) \<Rightarrow>
                (case getPathTarget st1 pathArr of
                   None \<Rightarrow> (Inl (UnexpectedNotALegalFileName fullPath'), st1)
                 | Some parent \<Rightarrow>
                     (case find_by_name (children parent) nm of
                        Some (Dir existingChild) \<Rightarrow> (Inl (FileSaveError fullPath'), st1)
                      | Some (File n fp c) \<Rightarrow>
                          (if c \<noteq> Some newContent then
                             (Inr (),
                              st1\<lparr>root := updatePathTargetFrom
                                     (\<lambda>p. Directory (name p) (fullPath p)
                                        (replace_found nm (File n fp (Some newContent)) (children p)))
                                     (root st1) pathArr,
                                   emitted := emitted st1 @ [FileChanged fullPath' newContent]\<rparr>)
                           else (Inr (), st1))
                      | None \<Rightarrow>
                          (Inr (),
                           st1\<lparr>root := updatePathTargetFrom
                                  (\<lambda>p. Directory (name p) (fullPath p)
                                     (children p @ [File nm fullPath' (Some newContent)]))
                                  (root st1) pathArr,
                                emitted := emitted st1 @ [FileCreated fullPath' newContent]\<rparr>))))))"

subsection \<open>deleteFileSync and deleteDirectorySync\<close>

text \<open>\<open>parent.children = parent.children.filter(({name}) => name !== node.name)\<close>.\<close>

definition removeChildren :: "string \<Rightarrow> directory \<Rightarrow> directory" where
  "removeChildren nm parent =
     Directory (name parent) (fullPath parent)
       (filter (\<lambda>c. node_name c \<noteq> nm) (children parent))"

definition deleteFileSync ::
  "(string \<Rightarrow> bool) \<Rightarrow> string \<Rightarrow> store \<Rightarrow> (error + unit) \<times> store" where
  "deleteFileSync isIgnored fullPath' st =
     (let pathArr = getPathNodes fullPath';
          parent = (if pathArr \<noteq> [] then getPathTarget st (butlast pathArr) else None)
      in case parent of
           Some p \<Rightarrow>
             (if \<not> isIgnored fullPath' then
                (case find_by_name (children p) (last pathArr) of
                   Some (File n fp c) \<Rightarrow>
                     (Inr (),
                      st\<lparr>root := updatePathTargetFrom (removeChildren n) (root st) (butlast pathArr),
                          emitted := emitted st @ [FileDeleted fullPath']\<rparr>)
                 | Some (Dir node) \<Rightarrow> (Inl (DirectoryIsNotAFile fullPath'), st)
                 | None \<Rightarrow> (Inr (), st))
              else (Inr (), st))
         | None \<Rightarrow> (Inr (), st))"

text \<open>
  \<open>recursiveEmitDeletion\<close>: the events in the order of emission. In the \<open>forEach\<close>
  the \<open>if\<close> has no \<open>else\<close>: the \<open>fileDeleted\<close> event is emitted for every child,
  after the recursive call when the child is a directory.
\<close>

fun recursiveEmitDeletion :: "directory \<Rightarrow> event list" where
  "recursiveEmitDeletion (Directory n fp cs) =
     DirectoryDeleted fp #
     concat (map (\<lambda>child.
        (case child of Dir d \<Rightarrow> recursiveEmitDeletion d | File n' fp' c' \<Rightarrow> [])
        @ [FileDeleted (node_fullPath child)]) cs)"

definition deleteDirectorySync ::
  "(string \<Rightarrow> bool) \<Rightarrow> string \<Rightarrow> bool \<Rightarrow> store \<Rightarrow> (error + unit) \<times> store" where
  "deleteDirectorySync isIgnored fullPath' recursive st =
     (let pathArr = getPathNodes fullPath' in
      if pathArr = [] then (Inl CantDeleteRoot, st)
      else
        (case getPathTarget st (butlast pathArr) of
           Some parent \<Rightarrow>
             (if \<not> isIgnored fullPath' then
                (case find_by_name (children parent) (last pathArr) of
                   Some (File n fp c) \<Rightarrow> (Inl (FileIsNotADirectory fullPath'), st)
                 | Some (Dir node) \<Rightarrow>
                     (if \<not> recursive \<and> children node \<noteq> [] then
                        (Inl (DirectoryIsNotEmpty fullPath'), st)
                      else
                        (Inr (),
                         st\<lparr>root := updatePathTargetFrom (removeChildren (name node))
                                      (root st) (butlast pathArr),
                             emitted := emitted st @ recursiveEmitDeletion node\<rparr>))
                 | None \<Rightarrow> (Inr (), st))
              else (Inr (), st))
         | None \<Rightarrow> (Inr (), st)))"

subsection \<open>The read operations\<close>

definition loadTextFileSync ::
  "(string \<Rightarrow> bool) \<Rightarrow> string \<Rightarrow> store \<Rightarrow> (error + string) \<times> store" where
  "loadTextFileSync isIgnored fullPath' st =
     (if isIgnored fullPath' then (Inl (UnableToReadIgnored fullPath'), st)
      else
        (let pathArr = getPathNodes fullPath';
             parent = (if pathArr \<noteq> [] then getPathTarget st (butlast pathArr) else None)
         in case parent of
              Some p \<Rightarrow>
                (case find_by_name (children p) (last pathArr) of
                   Some (File n fp c) \<Rightarrow> (Inr (case c of Some s \<Rightarrow> s | None \<Rightarrow> []), st)
                 | Some (Dir node) \<Rightarrow> (Inl (FileIsADirectory fullPath'), st)
                 | None \<Rightarrow> (Inl (CannotFindFile fullPath'), st))
            | None \<Rightarrow> (Inl (CannotFindFile fullPath'), st)))"

text \<open>\<open>parseTree\<close>: a copy of the directory; a file is copied without its content
  (\<open>new File(child.name, child.fullPath)\<close>).\<close>

fun parseTree :: "directory \<Rightarrow> directory" where
  "parseTree (Directory n fp cs) =
     Directory n fp
       (map (\<lambda>child. case child of
                Dir d \<Rightarrow> Dir (parseTree d)
              | File n' fp' c' \<Rightarrow> File (node_name child) (node_fullPath child) None) cs)"

text \<open>The parameter \<open>fullPath\<close> is optional with the default \<open>''\<close>.\<close>

definition loadDirectoryTreeSync ::
  "(string \<Rightarrow> bool) \<Rightarrow> string option \<Rightarrow> store \<Rightarrow> (error + directory) \<times> store" where
  "loadDirectoryTreeSync isIgnored fullPathArg st =
     (let fullPath' = (case fullPathArg of None \<Rightarrow> [] | Some p \<Rightarrow> p) in
      if isIgnored fullPath' then (Inl (UnableToReadIgnored fullPath'), st)
      else
        (let pathArr = getPathNodes fullPath';
             dir = (if pathArr \<noteq> [] then getPathTarget st pathArr else Some (root st))
         in case dir of
              None \<Rightarrow> (Inl (UnableToReadFolder fullPath'), st)
            | Some d \<Rightarrow> (Inr (parseTree d), st)))"

definition loadDirectoryChildrenSync ::
  "(string \<Rightarrow> bool) \<Rightarrow> string \<Rightarrow> store \<Rightarrow> (error + shallow_node list) \<times> store" where
  "loadDirectoryChildrenSync isIgnored fullPath' st =
     (if isIgnored fullPath' then (Inl (UnableToReadIgnored fullPath'), st)
      else
        (let pathArr = getPathNodes fullPath';
             dir = (if pathArr \<noteq> [] then getPathTarget st pathArr else Some (root st))
         in case dir of
              None \<Rightarrow> (Inl (UnableToReadFolder fullPath'), st)
            | Some d \<Rightarrow>
                (Inr (map (\<lambda>child. case child of
                             Dir c \<Rightarrow> ShallowDirectory (name c) (fullPath c)
                           | File n fp c \<Rightarrow> ShallowFile n fp None) (children d)),
                 st)))"

section \<open>Notions of the specification\<close>

text \<open>
  The error taxonomy of the specification. The code throws plain \<open>Error\<close> objects that
  differ in their message only; \<open>kind_of\<close> assigns to each the kind that the
  specification's wording gives it.
\<close>

datatype error_kind = IllegalPath | NotFound | TypeMismatch | NotEmpty

fun kind_of :: "error \<Rightarrow> error_kind" where
  "kind_of (UnableToSaveIgnored p) = IllegalPath"
| "kind_of RootIsNotALegalFileName = IllegalPath"
| "kind_of (UnexpectedNotALegalFileName p) = IllegalPath"
| "kind_of (FileSaveError p) = TypeMismatch"
| "kind_of (DirectoryIsNotAFile p) = TypeMismatch"
| "kind_of CantDeleteRoot = IllegalPath"
| "kind_of (FileIsNotADirectory p) = TypeMismatch"
| "kind_of (DirectoryIsNotEmpty p) = NotEmpty"
| "kind_of (UnableToReadAndWriteIgnored p) = IllegalPath"
| "kind_of (UnableToReadIgnored p) = IllegalPath"
| "kind_of (FileIsADirectory p) = TypeMismatch"
| "kind_of (CannotFindFile p) = NotFound"
| "kind_of (UnableToReadFolder p) = NotFound"

text \<open>A file occupies one of the segments of the path \<open>names\<close> below \<open>current\<close>.\<close>

fun fileOnPath :: "directory \<Rightarrow> string list \<Rightarrow> bool" where
  "fileOnPath current [] = False"
| "fileOnPath current (nm # rest) =
     (case find_by_name (children current) nm of
        Some (Dir next) \<Rightarrow> fileOnPath next rest
      | Some (File n fp c) \<Rightarrow> True
      | None \<Rightarrow> False)"

text \<open>The full paths of the nodes of a tree, and of its files only, in listing order.\<close>

fun listedPaths :: "directory \<Rightarrow> string list" where
  "listedPaths (Directory n fp cs) =
     concat (map (\<lambda>child. case child of
                    File n' fp' c' \<Rightarrow> [fp']
                  | Dir d \<Rightarrow> fullPath d # listedPaths d) cs)"

fun listedFiles :: "directory \<Rightarrow> string list" where
  "listedFiles (Directory n fp cs) =
     concat (map (\<lambda>child. case child of
                    File n' fp' c' \<Rightarrow> [fp']
                  | Dir d \<Rightarrow> listedFiles d) cs)"

text \<open>
  The invariant of the data model: the full path of every node below a directory is
  the join of the names on the way to it, the root (whose name is empty) left out.
  \<open>anc\<close> holds the names from below the root down to the directory itself.
\<close>

fun pathsConsistent :: "string list \<Rightarrow> directory \<Rightarrow> bool" where
  "pathsConsistent anc (Directory n fp cs) =
     (\<forall>child\<in>set cs.
        node_fullPath child = join pathSeparator (anc @ [node_name child]) \<and>
        (case child of
           Dir d \<Rightarrow> pathsConsistent (anc @ [node_name child]) d
         | File n' fp' c' \<Rightarrow> True))"

text \<open>
  The events that tell which directories a call has created along the path \<open>names\<close>:
  for each non-empty prefix of the path, in order, one \<open>directoryCreated\<close> event if the
  prefix resolves to a directory after the call and did not before it, with the full
  path of that directory.
\<close>

fun nonEmptyPrefixes :: "'a list \<Rightarrow> 'a list list" where
  "nonEmptyPrefixes [] = []"
| "nonEmptyPrefixes (x # xs) = [x] # map ((#) x) (nonEmptyPrefixes xs)"

definition createdAt :: "directory \<Rightarrow> directory \<Rightarrow> string list \<Rightarrow> event list" where
  "createdAt before after q =
     (case getPathTargetFrom before q of
        Some d \<Rightarrow> []
      | None \<Rightarrow>
          (case getPathTargetFrom after q of
             Some d \<Rightarrow> [DirectoryCreated (fullPath d)]
           | None \<Rightarrow> []))"

text \<open>
  What the specification says of a \<open>saveFile\<close> that creates a file: the missing ancestor
  directories are created, one \<open>directoryCreated\<close> event for each with its accumulated
  path, and the file is added; nothing else changes.

  \<open>childPath base nm\<close> is the accumulated path of the segment \<open>nm\<close> below a directory
  whose full path is \<open>base\<close>. \<open>missingDirs current names\<close> lists the accumulated paths of
  the directories that the path \<open>names\<close> lacks below \<open>current\<close>, outermost first: none
  as long as the segments resolve to directories, and from the first segment that has no
  node, every segment to the end of the path.
\<close>

definition childPath :: "string \<Rightarrow> string \<Rightarrow> string" where
  "childPath base nm = (if base \<noteq> [] then base @ pathSeparator # nm else nm)"

fun newPaths :: "string \<Rightarrow> string list \<Rightarrow> string list" where
  "newPaths base [] = []"
| "newPaths base (nm # rest) = childPath base nm # newPaths (childPath base nm) rest"

fun missingDirs :: "directory \<Rightarrow> string list \<Rightarrow> string list" where
  "missingDirs current [] = []"
| "missingDirs current (nm # rest) =
     (case find_by_name (children current) nm of
        Some (Dir next) \<Rightarrow> missingDirs next rest
      | Some (File n fp c) \<Rightarrow> []
      | None \<Rightarrow> newPaths (fullPath current) (nm # rest))"

text \<open>
  \<open>freshDir nm fp rest new\<close> is a directory that did not exist, of the name \<open>nm\<close> and the
  full path \<open>fp\<close>: it holds nothing but the chain of new directories along \<open>rest\<close>, at
  the end of which is the node \<open>new\<close>.
  \<open>withNode current names new\<close> is the tree \<open>current\<close> with the node \<open>new\<close> added as the
  last child of the directory at the path \<open>names\<close>: every directory keeps its children,
  in their order; the child on the path is that child with the node added below it; and
  where the path has no node, a new directory is added as the last child.
\<close>

fun freshDir :: "string \<Rightarrow> string \<Rightarrow> string list \<Rightarrow> node \<Rightarrow> directory" where
  "freshDir nm fp [] new = Directory nm fp [new]"
| "freshDir nm fp (x # rest) new =
     Directory nm fp [Dir (freshDir x (childPath fp x) rest new)]"

fun withNode :: "directory \<Rightarrow> string list \<Rightarrow> node \<Rightarrow> directory" where
  "withNode current [] new =
     Directory (name current) (fullPath current) (children current @ [new])"
| "withNode current (nm # rest) new =
     (case find_by_name (children current) nm of
        Some (Dir next) \<Rightarrow>
          Directory (name current) (fullPath current)
            (replace_found nm (Dir (withNode next rest new)) (children current))
      | Some (File n fp c) \<Rightarrow> current
      | None \<Rightarrow>
          Directory (name current) (fullPath current)
            (children current @
               [Dir (freshDir nm (childPath (fullPath current) nm) rest new)]))"

text \<open>
  \<open>withChild current names nm new\<close> is the tree \<open>current\<close> in which the first child of
  the name \<open>nm\<close> of the directory at the path \<open>names\<close> is \<open>new\<close>; every other node is
  as it was, at its place.
\<close>

fun withChild :: "directory \<Rightarrow> string list \<Rightarrow> string \<Rightarrow> node \<Rightarrow> directory" where
  "withChild current [] nm new =
     Directory (name current) (fullPath current) (replace_found nm new (children current))"
| "withChild current (x # rest) nm new =
     (case find_by_name (children current) x of
        Some (Dir next) \<Rightarrow>
          Directory (name current) (fullPath current)
            (replace_found x (Dir (withChild next rest nm new)) (children current))
      | _ \<Rightarrow> current)"

text \<open>The stores that the operations of the contract reach from the fresh store,
  whether the operation succeeds or throws.\<close>

inductive reachable :: "(string \<Rightarrow> bool) \<Rightarrow> store \<Rightarrow> bool" for isIgnored where
  reach_fresh: "reachable isIgnored fresh"
| reach_saveFile:
    "reachable isIgnored st \<Longrightarrow> reachable isIgnored (snd (saveFileSync isIgnored p c st))"
| reach_ensureDirectory:
    "reachable isIgnored st \<Longrightarrow> reachable isIgnored (snd (ensureDirectorySync isIgnored p st))"
| reach_deleteFile:
    "reachable isIgnored st \<Longrightarrow> reachable isIgnored (snd (deleteFileSync isIgnored p st))"
| reach_deleteDirectory:
    "reachable isIgnored st \<Longrightarrow>
     reachable isIgnored (snd (deleteDirectorySync isIgnored p recursive st))"
| reach_loadTextFile:
    "reachable isIgnored st \<Longrightarrow> reachable isIgnored (snd (loadTextFileSync isIgnored p st))"
| reach_loadDirectoryTree:
    "reachable isIgnored st \<Longrightarrow>
     reachable isIgnored (snd (loadDirectoryTreeSync isIgnored po st))"
| reach_loadDirectoryChildren:
    "reachable isIgnored st \<Longrightarrow>
     reachable isIgnored (snd (loadDirectoryChildrenSync isIgnored p st))"

section \<open>Auxiliary facts\<close>

subsection \<open>Path nodes and joining\<close>

lemma split_on_no_sep:
  "sep \<notin> set x \<Longrightarrow> split_on sep cur x = [cur @ x]"
  by (induction x arbitrary: cur) auto

lemma split_on_append_sep:
  "sep \<notin> set x \<Longrightarrow> split_on sep cur (x @ sep # rest) = (cur @ x) # split_on sep [] rest"
  by (induction x arbitrary: cur) auto

lemma split_on_segments:
  "sep \<notin> set cur \<Longrightarrow> \<forall>s\<in>set (split_on sep cur xs). sep \<notin> set s"
proof (induction xs arbitrary: cur)
  case Nil
  then show ?case by simp
next
  case (Cons a xs)
  show ?case
  proof (cases "a = sep")
    case True
    then show ?thesis using Cons.IH[of "[]"] Cons.prems by simp
  next
    case False
    then show ?thesis using Cons.IH[of "cur @ [a]"] Cons.prems by simp
  qed
qed

lemma split_on_join:
  "segs \<noteq> [] \<Longrightarrow> \<forall>s\<in>set segs. sep \<notin> set s \<Longrightarrow> split_on sep [] (join sep segs) = segs"
proof (induction sep segs rule: join.induct)
  case (1 sep)
  then show ?case by simp
next
  case (2 sep x)
  then show ?case by (simp add: split_on_no_sep)
next
  case (3 sep x y ys)
  then show ?case by (simp add: split_on_append_sep)
qed

lemma getPathNodes_segments:
  "s \<in> set (getPathNodes p) \<Longrightarrow> s \<noteq> [] \<and> pathSeparator \<notin> set s"
  unfolding getPathNodes_def using split_on_segments[of pathSeparator "[]" p] by auto

lemma getPathNodes_join:
  assumes "\<forall>s\<in>set segs. s \<noteq> [] \<and> pathSeparator \<notin> set s"
  shows "getPathNodes (join pathSeparator segs) = segs"
proof (cases segs)
  case Nil
  then show ?thesis by (simp add: getPathNodes_def)
next
  case (Cons a list)
  then have "split_on pathSeparator [] (join pathSeparator segs) = segs"
    using assms split_on_join[of segs pathSeparator] by auto
  then show ?thesis using assms by (simp add: getPathNodes_def filter_id_conv)
qed

lemma getPathNodes_butlast_join:
  "getPathNodes (join pathSeparator (butlast (getPathNodes p))) = butlast (getPathNodes p)"
  by (rule getPathNodes_join) (auto dest: in_set_butlastD getPathNodes_segments)

lemma getPathNodes_last:
  "getPathNodes p \<noteq> [] \<Longrightarrow> last (getPathNodes p) \<noteq> []"
  using getPathNodes_segments[of "last (getPathNodes p)" p] by simp

subsection \<open>Finding and replacing a child\<close>

lemma find_by_name_Some:
  "find_by_name cs nm = Some c \<Longrightarrow> node_name c = nm \<and> c \<in> set cs"
  by (induction cs) (auto split: if_splits)

lemma replace_found_same:
  "find_by_name cs nm = Some c \<Longrightarrow> replace_found nm c cs = cs"
  by (induction cs) (auto split: if_splits)

lemma find_by_name_replace_found:
  "node_name new = nm \<Longrightarrow> find_by_name cs nm = Some c \<Longrightarrow>
   find_by_name (replace_found nm new cs) nm = Some new"
  by (induction cs) (auto split: if_splits)

lemma find_by_name_append:
  "find_by_name (cs @ ds) nm =
     (case find_by_name cs nm of Some c \<Rightarrow> Some c | None \<Rightarrow> find_by_name ds nm)"
  by (induction cs) auto

lemma replace_found_twice:
  "node_name new = nm \<Longrightarrow> replace_found nm new' (replace_found nm new cs) = replace_found nm new' cs"
  by (induction cs) auto

lemma replace_found_appended:
  "find_by_name cs nm = None \<Longrightarrow> node_name old = nm \<Longrightarrow>
   replace_found nm new (cs @ [old]) = cs @ [new]"
  by (induction cs) (auto split: if_splits)

subsection \<open>The walk of ensureDirectorySync\<close>

lemma ensureFrom_name:
  "ensureFrom cur names = (err, cur', evs) \<Longrightarrow> name cur' = name cur \<and> fullPath cur' = fullPath cur"
  by (cases names) (auto split: option.splits node.splits prod.splits simp: Let_def)

lemma ensureFrom_empty_ok:
  "children cur = [] \<Longrightarrow> \<exists>cur' evs. ensureFrom cur names = (None, cur', evs)"
proof (induction names arbitrary: cur)
  case Nil
  then show ?case by simp
next
  case (Cons nm rest)
  let ?newDir = "Directory nm (if fullPath cur \<noteq> [] then fullPath cur @ pathSeparator # nm else nm) []"
  obtain nd' evs' where "ensureFrom ?newDir rest = (None, nd', evs')"
    using Cons.IH[of ?newDir] by auto
  then show ?case using Cons.prems
    by (simp add: Let_def)
qed

lemma ensureFrom_fail_unchanged:
  "ensureFrom cur names = (Some e, cur', evs) \<Longrightarrow> cur' = cur \<and> evs = []"
proof (induction names arbitrary: cur cur' evs)
  case Nil
  then show ?case by simp
next
  case (Cons nm rest)
  show ?case
  proof (cases "find_by_name (children cur) nm")
    case None
    let ?newDir = "Directory nm (if fullPath cur \<noteq> [] then fullPath cur @ pathSeparator # nm else nm) []"
    obtain nd' evs' where "ensureFrom ?newDir rest = (None, nd', evs')"
      using ensureFrom_empty_ok[of ?newDir rest] by auto
    with Cons.prems None show ?thesis
      by (simp add: Let_def)
  next
    case (Some c)
    show ?thesis
    proof (cases c)
      case (File n fp co)
      with Cons.prems Some show ?thesis by auto
    next
      case (Dir nxt)
      obtain err nxt' evs' where r: "ensureFrom nxt rest = (err, nxt', evs')"
        by (cases "ensureFrom nxt rest") auto
      with Cons.prems Some Dir have "err = Some e" and ev: "evs = evs'"
        and c': "cur' = Directory (name cur) (fullPath cur) (replace_found nm (Dir nxt') (children cur))"
        by auto
      with Cons.IH[of nxt nxt' evs'] r have "nxt' = nxt" "evs' = []" by auto
      with c' ev Some Dir show ?thesis
        by (simp add: replace_found_same)
    qed
  qed
qed

lemma ensureFrom_existing:
  "getPathTargetFrom cur names = Some d \<Longrightarrow> ensureFrom cur names = (None, cur, [])"
proof (induction names arbitrary: cur)
  case Nil
  then show ?case by simp
next
  case (Cons nm rest)
  then show ?case
    by (cases cur) (auto split: if_splits option.splits node.splits simp: replace_found_same)
qed

lemma ensureFrom_creates:
  "children cur = [] \<Longrightarrow> \<forall>s\<in>set names. s \<noteq> [] \<Longrightarrow> ensureFrom cur names = (err, cur', evs) \<Longrightarrow>
   \<exists>d. getPathTargetFrom cur' names = Some d \<and> (names \<noteq> [] \<longrightarrow> children d = [])"
proof (induction names arbitrary: cur cur' evs err)
  case Nil
  then show ?case by simp
next
  case (Cons nm rest)
  let ?newDir = "Directory nm (if fullPath cur \<noteq> [] then fullPath cur @ pathSeparator # nm else nm) []"
  obtain err' nd' evs' where r: "ensureFrom ?newDir rest = (err', nd', evs')"
    by (cases "ensureFrom ?newDir rest") auto
  from Cons.IH[OF _ _ r] Cons.prems obtain d where
    d: "getPathTargetFrom nd' rest = Some d" "rest \<noteq> [] \<longrightarrow> children d = []"
    by auto
  have nd: "name nd' = nm" using ensureFrom_name[OF r] by simp
  have "rest = [] \<Longrightarrow> nd' = ?newDir" using r by simp
  with d have "children d = []" by (cases "rest = []") auto
  moreover have "cur' = Directory (name cur) (fullPath cur) [Dir nd']"
    using Cons.prems r by (auto simp: Let_def)
  ultimately show ?case using d nd Cons.prems by auto
qed

lemma ensureFrom_target:
  "\<forall>s\<in>set names. s \<noteq> [] \<Longrightarrow> ensureFrom cur names = (None, cur', evs) \<Longrightarrow>
   \<exists>d. getPathTargetFrom cur' names = Some d \<and>
       (getPathTargetFrom cur names = None \<longrightarrow> children d = [])"
proof (induction names arbitrary: cur cur' evs)
  case Nil
  then show ?case by simp
next
  case (Cons nm rest)
  show ?case
  proof (cases "find_by_name (children cur) nm")
    case None
    let ?newDir = "Directory nm (if fullPath cur \<noteq> [] then fullPath cur @ pathSeparator # nm else nm) []"
    obtain err' nd' evs' where r: "ensureFrom ?newDir rest = (err', nd', evs')"
      by (cases "ensureFrom ?newDir rest") auto
    from ensureFrom_creates[OF _ _ r] Cons.prems obtain d where
      d: "getPathTargetFrom nd' rest = Some d" "rest \<noteq> [] \<longrightarrow> children d = []"
      by auto
    have nd: "name nd' = nm" using ensureFrom_name[OF r] by simp
    have "rest = [] \<Longrightarrow> nd' = ?newDir" using r by simp
    with d have "children d = []" by (cases "rest = []") auto
    moreover have "cur' = Directory (name cur) (fullPath cur) (children cur @ [Dir nd'])"
      using Cons.prems r None by (auto simp: Let_def)
    ultimately show ?thesis using d nd Cons.prems None
      by (auto simp: find_by_name_append)
  next
    case (Some c)
    show ?thesis
    proof (cases c)
      case (File n fp co)
      with Cons.prems Some show ?thesis by auto
    next
      case (Dir nxt)
      obtain err nxt' evs' where r: "ensureFrom nxt rest = (err, nxt', evs')"
        by (cases "ensureFrom nxt rest") auto
      with Cons.prems Some Dir have e: "err = None"
        and c': "cur' = Directory (name cur) (fullPath cur) (replace_found nm (Dir nxt') (children cur))"
        by auto
      from Cons.IH[of nxt nxt' evs'] r e Cons.prems obtain d where
        d: "getPathTargetFrom nxt' rest = Some d"
           "getPathTargetFrom nxt rest = None \<longrightarrow> children d = []"
        by auto
      have nn: "name nxt' = nm"
        using ensureFrom_name[OF r] find_by_name_Some[OF Some] Dir by simp
      have "find_by_name (replace_found nm (Dir nxt') (children cur)) nm = Some (Dir nxt')"
        using find_by_name_replace_found[OF _ Some, of "Dir nxt'"] nn by simp
      with c' d Some Dir Cons.prems show ?thesis by auto
    qed
  qed
qed

lemma ensureFrom_ok_iff:
  "fst (ensureFrom cur names) = None \<longleftrightarrow> \<not> fileOnPath cur names"
proof (induction names arbitrary: cur)
  case Nil
  then show ?case by simp
next
  case (Cons nm rest)
  show ?case
  proof (cases "find_by_name (children cur) nm")
    case None
    let ?newDir = "Directory nm (if fullPath cur \<noteq> [] then fullPath cur @ pathSeparator # nm else nm) []"
    obtain nd' evs' where "ensureFrom ?newDir rest = (None, nd', evs')"
      using ensureFrom_empty_ok[of ?newDir rest] by auto
    with None show ?thesis by (simp add: Let_def)
  next
    case (Some ch)
    show ?thesis
    proof (cases ch)
      case (File n fp co)
      with Some show ?thesis by simp
    next
      case (Dir nxt)
      obtain err nxt' evs where r: "ensureFrom nxt rest = (err, nxt', evs)"
        by (cases "ensureFrom nxt rest") auto
      with Cons.IH[of nxt] have "err = None \<longleftrightarrow> \<not> fileOnPath nxt rest" by simp
      with Some Dir r show ?thesis by simp
    qed
  qed
qed

lemma ensureFrom_events:
  "ensureFrom cur names = (err, cur', evs) \<Longrightarrow> \<forall>e\<in>set evs. \<exists>q. e = DirectoryCreated q"
proof (induction names arbitrary: cur cur' evs err)
  case Nil
  then show ?case by simp
next
  case (Cons nm rest)
  show ?case
  proof (cases "find_by_name (children cur) nm")
    case None
    let ?newDir = "Directory nm (if fullPath cur \<noteq> [] then fullPath cur @ pathSeparator # nm else nm) []"
    obtain err' nd' evs' where r: "ensureFrom ?newDir rest = (err', nd', evs')"
      by (cases "ensureFrom ?newDir rest") auto
    from Cons.IH[OF r] have "\<forall>e\<in>set evs'. \<exists>q. e = DirectoryCreated q" .
    moreover from Cons.prems None r have "evs = DirectoryCreated (fullPath ?newDir) # evs'"
      by (simp add: Let_def)
    ultimately show ?thesis by auto
  next
    case (Some ch)
    show ?thesis
    proof (cases ch)
      case (File n fp co)
      with Cons.prems Some show ?thesis by auto
    next
      case (Dir nxt)
      obtain err' nxt' evs' where r: "ensureFrom nxt rest = (err', nxt', evs')"
        by (cases "ensureFrom nxt rest") auto
      from Cons.IH[OF r] have "\<forall>e\<in>set evs'. \<exists>q. e = DirectoryCreated q" .
      moreover from Cons.prems Some Dir r have "evs = evs'" by simp
      ultimately show ?thesis by simp
    qed
  qed
qed

lemma nonEmptyPrefixes_nonempty:
  "q \<in> set (nonEmptyPrefixes xs) \<Longrightarrow> q \<noteq> []"
  by (cases xs) auto

lemma getPathTargetFrom_no_children:
  "children d = [] \<Longrightarrow> q \<noteq> [] \<Longrightarrow> getPathTargetFrom d q = None"
  by (cases q) auto

lemma ensureFrom_created:
  "\<forall>s\<in>set names. s \<noteq> [] \<Longrightarrow> ensureFrom cur names = (None, cur', evs) \<Longrightarrow>
   evs = concat (map (createdAt cur cur') (nonEmptyPrefixes names))"
proof (induction names arbitrary: cur cur' evs)
  case Nil
  then show ?case by simp
next
  case (Cons nm rest)
  from Cons.prems have nm: "nm \<noteq> []" and rest: "\<forall>s\<in>set rest. s \<noteq> []" by auto
  show ?case
  proof (cases "find_by_name (children cur) nm")
    case None
    let ?newDir = "Directory nm (if fullPath cur \<noteq> [] then fullPath cur @ pathSeparator # nm else nm) []"
    obtain err' nd' evs' where r: "ensureFrom ?newDir rest = (err', nd', evs')"
      by (cases "ensureFrom ?newDir rest") auto
    with Cons.prems None have e: "err' = None"
      and ev: "evs = DirectoryCreated (fullPath ?newDir) # evs'"
      and c': "cur' = Directory (name cur) (fullPath cur) (children cur @ [Dir nd'])"
      by (auto simp: Let_def)
    from Cons.IH[OF rest r[unfolded e]]
    have ih: "evs' = concat (map (createdAt ?newDir nd') (nonEmptyPrefixes rest))" .
    have nd: "name nd' = nm" "fullPath nd' = fullPath ?newDir"
      using ensureFrom_name[OF r] by simp_all
    have after: "getPathTargetFrom cur' (nm # q) = getPathTargetFrom nd' q" for q
      using c' nd None nm by (simp add: find_by_name_append)
    have before: "getPathTargetFrom cur (nm # q) = None" for q
      using None by simp
    have first: "createdAt cur cur' [nm] = [DirectoryCreated (fullPath ?newDir)]"
      unfolding createdAt_def before after using nd by simp
    have "createdAt cur cur' (nm # q) = createdAt ?newDir nd' q"
      if "q \<in> set (nonEmptyPrefixes rest)" for q
    proof -
      from that have "q \<noteq> []" by (rule nonEmptyPrefixes_nonempty)
      then have "getPathTargetFrom ?newDir q = None"
        by (simp add: getPathTargetFrom_no_children)
      then show ?thesis unfolding createdAt_def before after by simp
    qed
    then have "concat (map (createdAt cur cur' \<circ> (#) nm) (nonEmptyPrefixes rest)) =
        concat (map (createdAt ?newDir nd') (nonEmptyPrefixes rest))"
      by (intro arg_cong[where f = concat] map_cong) (simp_all split del: if_split)
    with first ih ev show ?thesis by (simp split del: if_split)
  next
    case (Some ch)
    show ?thesis
    proof (cases ch)
      case (File n fp co)
      with Cons.prems Some show ?thesis by auto
    next
      case (Dir nxt)
      obtain err' nxt' evs' where r: "ensureFrom nxt rest = (err', nxt', evs')"
        by (cases "ensureFrom nxt rest") auto
      with Cons.prems Some Dir have e: "err' = None" and ev: "evs = evs'"
        and c': "cur' = Directory (name cur) (fullPath cur)
                   (replace_found nm (Dir nxt') (children cur))"
        by auto
      from Cons.IH[OF rest r[unfolded e]]
      have ih: "evs' = concat (map (createdAt nxt nxt') (nonEmptyPrefixes rest))" .
      have nn: "name nxt' = nm"
        using ensureFrom_name[OF r] find_by_name_Some[OF Some] Dir by simp
      have fr: "find_by_name (replace_found nm (Dir nxt') (children cur)) nm = Some (Dir nxt')"
        using find_by_name_replace_found[OF _ Some, of "Dir nxt'"] nn by simp
      have after: "getPathTargetFrom cur' (nm # q) = getPathTargetFrom nxt' q" for q
        using c' fr nm by simp
      have before: "getPathTargetFrom cur (nm # q) = getPathTargetFrom nxt q" for q
        using Some Dir nm by simp
      have first: "createdAt cur cur' [nm] = []"
        unfolding createdAt_def before by simp
      have "createdAt cur cur' (nm # q) = createdAt nxt nxt' q" for q
        unfolding createdAt_def before after by (rule refl)
      then have "concat (map (createdAt cur cur' \<circ> (#) nm) (nonEmptyPrefixes rest)) =
          concat (map (createdAt nxt nxt') (nonEmptyPrefixes rest))"
        by (intro arg_cong[where f = concat] map_cong) simp_all
      with first ih ev show ?thesis by simp
    qed
  qed
qed

lemma ensureFrom_missing:
  "find_by_name (children cur) nm = None \<Longrightarrow>
   ensureFrom cur (nm # rest) =
     (case ensureFrom (Directory nm (childPath (fullPath cur) nm) []) rest of
        (err, nd', evs) \<Rightarrow>
          (err, Directory (name cur) (fullPath cur) (children cur @ [Dir nd']),
           DirectoryCreated (childPath (fullPath cur) nm) # evs))"
  by (simp add: Let_def childPath_def)

lemma ensureFrom_fresh:
  "ensureFrom (Directory nm fp []) rest = (err, d', evs) \<Longrightarrow>
   err = None \<and> evs = map DirectoryCreated (newPaths fp rest) \<and>
   updatePathTargetFrom (\<lambda>d. Directory (name d) (fullPath d) (children d @ [new])) d' rest =
     freshDir nm fp rest new"
proof (induction rest arbitrary: nm fp err d' evs)
  case Nil
  then show ?case by auto
next
  case (Cons x rest)
  let ?newDir = "Directory x (childPath fp x) []"
  obtain err' n' evs' where r: "ensureFrom ?newDir rest = (err', n', evs')"
    by (cases "ensureFrom ?newDir rest") auto
  from Cons.IH[OF r] have ih: "err' = None" "evs' = map DirectoryCreated (newPaths (childPath fp x) rest)"
    "updatePathTargetFrom (\<lambda>d. Directory (name d) (fullPath d) (children d @ [new])) n' rest =
       freshDir x (childPath fp x) rest new"
    by auto
  have nn: "name n' = x" using ensureFrom_name[OF r] by simp
  from Cons.prems r have "err = err'" "d' = Directory nm fp [Dir n']"
    "evs = DirectoryCreated (childPath fp x) # evs'"
    using ensureFrom_missing[of "Directory nm fp []" x rest] by simp_all
  with ih nn show ?case by simp
qed

lemma ensureFrom_withNode:
  "\<not> fileOnPath cur names \<Longrightarrow> ensureFrom cur names = (err, cur', evs) \<Longrightarrow>
   err = None \<and> evs = map DirectoryCreated (missingDirs cur names) \<and>
   updatePathTargetFrom (\<lambda>d. Directory (name d) (fullPath d) (children d @ [new])) cur' names =
     withNode cur names new"
proof (induction names arbitrary: cur cur' evs err)
  case Nil
  then show ?case by auto
next
  case (Cons nm rest)
  let ?push = "\<lambda>d. Directory (name d) (fullPath d) (children d @ [new])"
  show ?case
  proof (cases "find_by_name (children cur) nm")
    case None
    let ?newDir = "Directory nm (childPath (fullPath cur) nm) []"
    obtain err' n' evs' where r: "ensureFrom ?newDir rest = (err', n', evs')"
      by (cases "ensureFrom ?newDir rest") auto
    from ensureFrom_fresh[OF r, of new] have f: "err' = None"
      "evs' = map DirectoryCreated (newPaths (childPath (fullPath cur) nm) rest)"
      "updatePathTargetFrom ?push n' rest = freshDir nm (childPath (fullPath cur) nm) rest new"
      by auto
    have nn: "name n' = nm" using ensureFrom_name[OF r] by simp
    from Cons.prems(2) r have c: "err = err'"
      "cur' = Directory (name cur) (fullPath cur) (children cur @ [Dir n'])"
      "evs = DirectoryCreated (childPath (fullPath cur) nm) # evs'"
      unfolding ensureFrom_missing[OF None] by simp_all
    have fd: "find_by_name (children cur @ [Dir n']) nm = Some (Dir n')"
      using None nn by (simp add: find_by_name_append)
    have "updatePathTargetFrom ?push cur' (nm # rest) =
        Directory (name cur) (fullPath cur) (children cur @ [Dir (updatePathTargetFrom ?push n' rest)])"
      using c(2) fd replace_found_appended[OF None, of "Dir n'"] nn by simp
    with f c None show ?thesis by simp
  next
    case (Some ch)
    show ?thesis
    proof (cases ch)
      case (File n fp co)
      with Cons.prems Some show ?thesis by simp
    next
      case (Dir nxt)
      obtain err' nxt' evs' where r: "ensureFrom nxt rest = (err', nxt', evs')"
        by (cases "ensureFrom nxt rest") auto
      from Cons.prems Some Dir have nb: "\<not> fileOnPath nxt rest" by simp
      from Cons.IH[OF nb r] have ih: "err' = None"
        "evs' = map DirectoryCreated (missingDirs nxt rest)"
        "updatePathTargetFrom ?push nxt' rest = withNode nxt rest new"
        by auto
      from Cons.prems Some Dir r have c: "err = err'" "evs = evs'"
        "cur' = Directory (name cur) (fullPath cur) (replace_found nm (Dir nxt') (children cur))"
        by auto
      have nn: "name nxt' = nm"
        using ensureFrom_name[OF r] find_by_name_Some[OF Some] Dir by simp
      have fr: "find_by_name (replace_found nm (Dir nxt') (children cur)) nm = Some (Dir nxt')"
        using find_by_name_replace_found[OF _ Some, of "Dir nxt'"] nn by simp
      have "updatePathTargetFrom ?push cur' (nm # rest) =
          Directory (name cur) (fullPath cur)
            (replace_found nm (Dir (updatePathTargetFrom ?push nxt' rest)) (children cur))"
        using c(3) fr nn by (simp add: replace_found_twice)
      with ih c Some Dir show ?thesis by simp
    qed
  qed
qed

subsection \<open>ensureDirectorySync\<close>

lemma ensureDirectorySync_fail_unchanged:
  assumes "ensureDirectorySync isIgnored q st = (Inl e, st1)"
  shows "st1 = st"
proof (cases "isIgnored q")
  case True
  with assms show ?thesis by (simp add: ensureDirectorySync_def)
next
  case False
  obtain err root' evs where r: "ensureFrom (root st) (getPathNodes q) = (err, root', evs)"
    by (cases "ensureFrom (root st) (getPathNodes q)") auto
  with assms False obtain e' where "err = Some e'"
    by (cases err) (auto simp: ensureDirectorySync_def)
  with r ensureFrom_fail_unchanged have "root' = root st" "evs = []" by auto
  with assms False r show ?thesis by (auto simp: ensureDirectorySync_def)
qed

lemma ensureDirectorySync_ok_target:
  assumes "ensureDirectorySync isIgnored q st = (Inr u, st1)"
  shows "\<exists>d. getPathTarget st1 (getPathNodes q) = Some d \<and>
             (getPathTarget st (getPathNodes q) = None \<longrightarrow> children d = []) \<and>
             (getPathTarget st (getPathNodes q) \<noteq> None \<longrightarrow> st1 = st)"
proof -
  from assms have ni: "\<not> isIgnored q" by (auto simp: ensureDirectorySync_def split: if_splits)
  obtain err root' evs where r: "ensureFrom (root st) (getPathNodes q) = (err, root', evs)"
    by (cases "ensureFrom (root st) (getPathNodes q)") auto
  with assms ni have e: "err = None" and st1: "st1 = st\<lparr>root := root', emitted := emitted st @ evs\<rparr>"
    by (auto simp: ensureDirectorySync_def split: option.splits)
  have ne: "\<forall>s\<in>set (getPathNodes q). s \<noteq> []" using getPathNodes_segments by blast
  from ensureFrom_target[OF ne] r e obtain d where
    d: "getPathTargetFrom root' (getPathNodes q) = Some d"
       "getPathTargetFrom (root st) (getPathNodes q) = None \<longrightarrow> children d = []"
    by blast
  have "st1 = st" if "getPathTarget st (getPathNodes q) \<noteq> None"
  proof -
    from that obtain d0 where "getPathTargetFrom (root st) (getPathNodes q) = Some d0"
      by (auto simp: getPathTarget_def)
    from ensureFrom_existing[OF this] r have "root' = root st" "evs = []" by auto
    with st1 show ?thesis by simp
  qed
  with d st1 show ?thesis by (auto simp: getPathTarget_def)
qed

lemma ensureDirectorySync_existing:
  "\<not> isIgnored q \<Longrightarrow> getPathTarget st (getPathNodes q) = Some d \<Longrightarrow>
   ensureDirectorySync isIgnored q st = (Inr (), st)"
  by (simp add: ensureDirectorySync_def getPathTarget_def ensureFrom_existing)

lemma ensureDirectorySync_ok_iff:
  "fst (ensureDirectorySync isIgnored q st) = Inr () \<longleftrightarrow>
   \<not> isIgnored q \<and> \<not> fileOnPath (root st) (getPathNodes q)"
  using ensureFrom_ok_iff[of "root st" "getPathNodes q"]
  by (auto simp: ensureDirectorySync_def split: prod.splits option.splits)

lemma ensureDirectorySync_emitted:
  "ensureDirectorySync isIgnored q st = (r, st1) \<Longrightarrow>
   \<exists>evs. emitted st1 = emitted st @ evs \<and> (\<forall>e\<in>set evs. \<exists>q'. e = DirectoryCreated q')"
proof (cases "isIgnored q")
  case True
  assume "ensureDirectorySync isIgnored q st = (r, st1)"
  with True show ?thesis by (auto simp: ensureDirectorySync_def)
next
  case False
  assume a: "ensureDirectorySync isIgnored q st = (r, st1)"
  obtain err root' evs where r: "ensureFrom (root st) (getPathNodes q) = (err, root', evs)"
    by (cases "ensureFrom (root st) (getPathNodes q)") auto
  with a False have "emitted st1 = emitted st @ evs" by (auto simp: ensureDirectorySync_def)
  with ensureFrom_events[OF r] show ?thesis by blast
qed

subsection \<open>Mutating the directory that getPathTarget returned\<close>

lemma updatePathTargetFrom_name:
  "getPathTargetFrom cur names = Some d \<Longrightarrow> name (f d) = name d \<Longrightarrow>
   name (updatePathTargetFrom f cur names) = name cur"
  by (cases names) (auto split: option.splits node.splits if_splits)

lemma getPathTargetFrom_update:
  "getPathTargetFrom cur names = Some d \<Longrightarrow> name (f d) = name d \<Longrightarrow>
   getPathTargetFrom (updatePathTargetFrom f cur names) names = Some (f d)"
proof (induction names arbitrary: cur)
  case Nil
  then show ?case by simp
next
  case (Cons nm rest)
  from Cons.prems obtain nxt where
    nm: "nm \<noteq> []" and f: "find_by_name (children cur) nm = Some (Dir nxt)"
    and t: "getPathTargetFrom nxt rest = Some d"
    by (auto split: if_splits option.splits node.splits)
  have "name (updatePathTargetFrom f nxt rest) = nm"
    using updatePathTargetFrom_name[of nxt rest d f, OF t Cons.prems(2)] find_by_name_Some[OF f] by simp
  then have "find_by_name (replace_found nm (Dir (updatePathTargetFrom f nxt rest)) (children cur)) nm
      = Some (Dir (updatePathTargetFrom f nxt rest))"
    using find_by_name_replace_found[OF _ f] by simp
  with nm f Cons.IH[of nxt, OF t Cons.prems(2)] show ?case by simp
qed

lemma getPathTarget_update:
  "getPathTarget st names = Some d \<Longrightarrow> name (f d) = name d \<Longrightarrow>
   getPathTarget (st\<lparr>root := updatePathTargetFrom f (root st) names, emitted := evs\<rparr>) names = Some (f d)"
  by (simp add: getPathTarget_def getPathTargetFrom_update)

lemma getPathTargetFrom_snoc:
  "getPathTargetFrom cur (xs @ [nm]) =
     (case getPathTargetFrom cur xs of
        None \<Rightarrow> None
      | Some d \<Rightarrow>
          (if nm \<noteq> [] then
             (case find_by_name (children d) nm of Some (Dir x) \<Rightarrow> Some x | _ \<Rightarrow> None)
           else None))"
  by (induction xs arbitrary: cur) (auto split: option.splits node.splits)

subsection \<open>The branches of saveFileSync\<close>

lemma saveFileSync_after_ensure:
  assumes "\<not> isIgnored p" "getPathNodes p \<noteq> []"
    and "ensureDirectorySync isIgnored (join pathSeparator (butlast (getPathNodes p))) st = (Inr u, st1)"
    and "getPathTarget st1 (butlast (getPathNodes p)) = Some parent"
  shows "saveFileSync isIgnored p c st =
    (case find_by_name (children parent) (last (getPathNodes p)) of
       Some (Dir existingChild) \<Rightarrow> (Inl (FileSaveError p), st1)
     | Some (File n fp c0) \<Rightarrow>
         (if c0 \<noteq> Some c then
            (Inr (),
             st1\<lparr>root := updatePathTargetFrom
                    (\<lambda>d. Directory (name d) (fullPath d)
                       (replace_found (last (getPathNodes p)) (File n fp (Some c)) (children d)))
                    (root st1) (butlast (getPathNodes p)),
                  emitted := emitted st1 @ [FileChanged p c]\<rparr>)
          else (Inr (), st1))
     | None \<Rightarrow>
         (Inr (),
          st1\<lparr>root := updatePathTargetFrom
                 (\<lambda>d. Directory (name d) (fullPath d)
                    (children d @ [File (last (getPathNodes p)) p (Some c)]))
                 (root st1) (butlast (getPathNodes p)),
               emitted := emitted st1 @ [FileCreated p c]\<rparr>))"
  using assms getPathNodes_last[of p]
  by (simp add: saveFileSync_def Let_def)

lemma saveFileSync_ok_file:
  assumes "fst (saveFileSync isIgnored p c st) = Inr ()"
  shows "\<exists>parent n fp. getPathTarget (snd (saveFileSync isIgnored p c st)) (butlast (getPathNodes p)) = Some parent \<and>
           find_by_name (children parent) (last (getPathNodes p)) = Some (File n fp (Some c))"
proof -
  let ?nodes = "getPathNodes p"
  let ?q = "join pathSeparator (butlast ?nodes)"
  from assms have ni: "\<not> isIgnored p" and ne: "?nodes \<noteq> []"
    by (auto simp: saveFileSync_def Let_def split: if_splits)
  obtain r st1 where en: "ensureDirectorySync isIgnored ?q st = (r, st1)"
    by (cases "ensureDirectorySync isIgnored ?q st") auto
  with assms ni ne getPathNodes_last[OF ne] obtain u where r: "r = Inr u"
    by (cases r) (auto simp: saveFileSync_def Let_def)
  from ensureDirectorySync_ok_target[of isIgnored ?q st u st1] en r obtain d where
    d: "getPathTarget st1 (butlast ?nodes) = Some d"
    by (auto simp: getPathNodes_butlast_join)
  note sv = saveFileSync_after_ensure[OF ni ne en[unfolded r] d, of c]
  show ?thesis
  proof (cases "find_by_name (children d) (last ?nodes)")
    case None
    let ?f = "\<lambda>d. Directory (name d) (fullPath d) (children d @ [File (last ?nodes) p (Some c)])"
    have "getPathTarget (snd (saveFileSync isIgnored p c st)) (butlast ?nodes) = Some (?f d)"
      using sv None getPathTarget_update[of st1 "butlast ?nodes" d ?f, OF d] by simp
    moreover have "find_by_name (children (?f d)) (last ?nodes) = Some (File (last ?nodes) p (Some c))"
      using None by (simp add: find_by_name_append)
    ultimately show ?thesis by blast
  next
    case (Some ch)
    show ?thesis
    proof (cases ch)
      case (Dir x)
      with sv Some assms show ?thesis by simp
    next
      case (File n fp c0)
      have nn: "n = last ?nodes" using find_by_name_Some[OF Some] File by simp
      show ?thesis
      proof (cases "c0 = Some c")
        case True
        with sv Some File d show ?thesis by auto
      next
        case False
        let ?f = "\<lambda>d. Directory (name d) (fullPath d)
                       (replace_found (last ?nodes) (File n fp (Some c)) (children d))"
        have "getPathTarget (snd (saveFileSync isIgnored p c st)) (butlast ?nodes) = Some (?f d)"
          using sv Some File False getPathTarget_update[of st1 "butlast ?nodes" d ?f, OF d] by simp
        moreover have "find_by_name (children (?f d)) (last ?nodes) = Some (File n fp (Some c))"
          using find_by_name_replace_found[OF _ Some, of "File n fp (Some c)"] nn by simp
        ultimately show ?thesis by blast
      qed
    qed
  qed
qed

lemma saveFileSync_existing_file:
  assumes "\<not> isIgnored p" "getPathNodes p \<noteq> []"
    and "\<not> isIgnored (join pathSeparator (butlast (getPathNodes p)))"
    and "getPathTarget st (butlast (getPathNodes p)) = Some parent"
    and "find_by_name (children parent) (last (getPathNodes p)) = Some (File n fp c0)"
  shows "saveFileSync isIgnored p c st =
     (if c0 \<noteq> Some c then
        (Inr (),
         st\<lparr>root := updatePathTargetFrom
                (\<lambda>d. Directory (name d) (fullPath d)
                   (replace_found (last (getPathNodes p)) (File n fp (Some c)) (children d)))
                (root st) (butlast (getPathNodes p)),
             emitted := emitted st @ [FileChanged p c]\<rparr>)
      else (Inr (), st))"
proof -
  have "ensureDirectorySync isIgnored (join pathSeparator (butlast (getPathNodes p))) st = (Inr (), st)"
    using assms(3,4) by (simp add: ensureDirectorySync_existing getPathNodes_butlast_join)
  from saveFileSync_after_ensure[OF assms(1,2) this assms(4), of c] assms(5)
  show ?thesis by simp
qed

lemma saveFileSync_new_file:
  assumes "\<not> isIgnored p" "getPathNodes p \<noteq> []"
    and "\<not> isIgnored (join pathSeparator (butlast (getPathNodes p)))"
    and "\<not> fileOnPath (root st) (butlast (getPathNodes p))"
    and "\<forall>parent. getPathTarget st (butlast (getPathNodes p)) = Some parent \<longrightarrow>
           find_by_name (children parent) (last (getPathNodes p)) = None"
  shows "fst (saveFileSync isIgnored p c st) = Inr () \<and>
     (\<exists>evs parent'.
        emitted (snd (saveFileSync isIgnored p c st)) = emitted st @ evs @ [FileCreated p c] \<and>
        (\<forall>e\<in>set evs. \<exists>q. e = DirectoryCreated q) \<and>
        getPathTarget (snd (saveFileSync isIgnored p c st)) (butlast (getPathNodes p)) = Some parent' \<and>
        find_by_name (children parent') (last (getPathNodes p)) =
          Some (File (last (getPathNodes p)) p (Some c)))"
proof -
  let ?nodes = "getPathNodes p"
  let ?q = "join pathSeparator (butlast ?nodes)"
  let ?f = "\<lambda>d. Directory (name d) (fullPath d) (children d @ [File (last ?nodes) p (Some c)])"
  obtain r st1 where en: "ensureDirectorySync isIgnored ?q st = (r, st1)"
    by (cases "ensureDirectorySync isIgnored ?q st") auto
  have "fst (ensureDirectorySync isIgnored ?q st) = Inr ()"
    using assms(3,4) by (simp add: ensureDirectorySync_ok_iff getPathNodes_butlast_join)
  with en have r: "r = Inr ()" by simp
  from ensureDirectorySync_ok_target[of isIgnored ?q st "()" st1] en r obtain d where
    d: "getPathTarget st1 (butlast ?nodes) = Some d"
       "getPathTarget st (butlast ?nodes) = None \<longrightarrow> children d = []"
       "getPathTarget st (butlast ?nodes) \<noteq> None \<longrightarrow> st1 = st"
    by (auto simp: getPathNodes_butlast_join)
  have none: "find_by_name (children d) (last ?nodes) = None"
  proof (cases "getPathTarget st (butlast ?nodes)")
    case None
    with d show ?thesis by simp
  next
    case (Some d0)
    with d have "d0 = d" by auto
    with Some assms(5) show ?thesis by simp
  qed
  from ensureDirectorySync_emitted[OF en] obtain evs where
    evs: "emitted st1 = emitted st @ evs" "\<forall>e\<in>set evs. \<exists>q'. e = DirectoryCreated q'"
    by blast
  from saveFileSync_after_ensure[OF assms(1,2) en[unfolded r] d(1), of c] none
  have sv: "saveFileSync isIgnored p c st =
      (Inr (), st1\<lparr>root := updatePathTargetFrom ?f (root st1) (butlast ?nodes),
                   emitted := emitted st1 @ [FileCreated p c]\<rparr>)"
    by simp
  have "getPathTarget (snd (saveFileSync isIgnored p c st)) (butlast ?nodes) = Some (?f d)"
    using sv getPathTarget_update[of st1 "butlast ?nodes" d ?f, OF d(1)] by simp
  moreover have "find_by_name (children (?f d)) (last ?nodes) = Some (File (last ?nodes) p (Some c))"
    using none by (simp add: find_by_name_append)
  moreover have "emitted (snd (saveFileSync isIgnored p c st)) = emitted st @ evs @ [FileCreated p c]"
    using sv evs by simp
  ultimately show ?thesis using sv evs(2) by auto
qed

lemma updatePathTargetFrom_withChild:
  "updatePathTargetFrom (\<lambda>d. Directory (name d) (fullPath d) (replace_found nm new (children d)))
     cur names = withChild cur names nm new"
  by (induction names arbitrary: cur) (auto split: option.splits node.splits)

lemma saveFileSync_new_file_store:
  assumes "\<not> isIgnored p" "getPathNodes p \<noteq> []"
    and "\<not> isIgnored (join pathSeparator (butlast (getPathNodes p)))"
    and "\<not> fileOnPath (root st) (butlast (getPathNodes p))"
    and "\<forall>parent. getPathTarget st (butlast (getPathNodes p)) = Some parent \<longrightarrow>
           find_by_name (children parent) (last (getPathNodes p)) = None"
  shows "saveFileSync isIgnored p c st =
     (Inr (),
      st\<lparr>root := withNode (root st) (butlast (getPathNodes p))
                    (File (last (getPathNodes p)) p (Some c)),
          emitted := emitted st @
                     map DirectoryCreated (missingDirs (root st) (butlast (getPathNodes p))) @
                     [FileCreated p c]\<rparr>)"
proof -
  let ?nodes = "getPathNodes p"
  let ?q = "join pathSeparator (butlast ?nodes)"
  let ?new = "File (last ?nodes) p (Some c)"
  let ?f = "\<lambda>d. Directory (name d) (fullPath d) (children d @ [?new])"
  obtain err root' evs where ef: "ensureFrom (root st) (butlast ?nodes) = (err, root', evs)"
    by (cases "ensureFrom (root st) (butlast ?nodes)") auto
  from ensureFrom_withNode[OF assms(4) ef, of ?new]
  have e: "err = None" and ev: "evs = map DirectoryCreated (missingDirs (root st) (butlast ?nodes))"
    and up: "updatePathTargetFrom ?f root' (butlast ?nodes) = withNode (root st) (butlast ?nodes) ?new"
    by auto
  let ?st1 = "st\<lparr>root := root', emitted := emitted st @ evs\<rparr>"
  have en: "ensureDirectorySync isIgnored ?q st = (Inr (), ?st1)"
    using assms(3) ef e by (simp add: ensureDirectorySync_def getPathNodes_butlast_join)
  from ensureDirectorySync_ok_target[OF en] obtain d where
    d: "getPathTarget ?st1 (butlast ?nodes) = Some d"
       "getPathTarget st (butlast ?nodes) = None \<longrightarrow> children d = []"
       "getPathTarget st (butlast ?nodes) \<noteq> None \<longrightarrow> ?st1 = st"
    by (auto simp: getPathNodes_butlast_join)
  have none: "find_by_name (children d) (last ?nodes) = None"
  proof (cases "getPathTarget st (butlast ?nodes)")
    case None
    with d show ?thesis by simp
  next
    case (Some d0)
    with d have "d0 = d" by auto
    with Some assms(5) show ?thesis by simp
  qed
  from saveFileSync_after_ensure[OF assms(1,2) en d(1), of c] none up ev
  show ?thesis by simp
qed

lemma saveFileSync_ok_iff:
  assumes "\<not> isIgnored p" "getPathNodes p \<noteq> []"
  shows "fst (saveFileSync isIgnored p c st) = Inr () \<longleftrightarrow>
           \<not> isIgnored (join pathSeparator (butlast (getPathNodes p))) \<and>
           \<not> fileOnPath (root st) (butlast (getPathNodes p)) \<and>
           getPathTarget st (getPathNodes p) = None"
proof -
  let ?nodes = "getPathNodes p"
  let ?q = "join pathSeparator (butlast ?nodes)"
  note ne = assms(2)
  have nodes: "?nodes = butlast ?nodes @ [last ?nodes]" using ne by simp
  have full: "getPathTarget st ?nodes =
     (case getPathTarget st (butlast ?nodes) of
        None \<Rightarrow> None
      | Some d \<Rightarrow> (case find_by_name (children d) (last ?nodes) of Some (Dir x) \<Rightarrow> Some x | _ \<Rightarrow> None))"
  proof -
    have "getPathTargetFrom (root st) (butlast ?nodes @ [last ?nodes]) =
     (case getPathTargetFrom (root st) (butlast ?nodes) of
        None \<Rightarrow> None
      | Some d \<Rightarrow> (case find_by_name (children d) (last ?nodes) of Some (Dir x) \<Rightarrow> Some x | _ \<Rightarrow> None))"
      using getPathNodes_last[OF ne]
      by (simp add: getPathTargetFrom_snoc split: option.splits)
    then show ?thesis using ne by (simp add: getPathTarget_def)
  qed
  obtain r st1 where en: "ensureDirectorySync isIgnored ?q st = (r, st1)"
    by (cases "ensureDirectorySync isIgnored ?q st") auto
  show ?thesis
  proof (cases r)
    case (Inl e)
    with en assms getPathNodes_last[OF ne]
    have "fst (saveFileSync isIgnored p c st) \<noteq> Inr ()"
      by (simp add: saveFileSync_def Let_def)
    moreover have "isIgnored ?q \<or> fileOnPath (root st) (butlast ?nodes)"
      using ensureDirectorySync_ok_iff[of isIgnored ?q st] en Inl
      by (simp add: getPathNodes_butlast_join)
    ultimately show ?thesis by blast
  next
    case (Inr u)
    have ok: "\<not> isIgnored ?q \<and> \<not> fileOnPath (root st) (butlast ?nodes)"
      using ensureDirectorySync_ok_iff[of isIgnored ?q st] en Inr
      by (simp add: getPathNodes_butlast_join)
    from ensureDirectorySync_ok_target[of isIgnored ?q st u st1] en Inr obtain d where
      d: "getPathTarget st1 (butlast ?nodes) = Some d"
         "getPathTarget st (butlast ?nodes) = None \<longrightarrow> children d = []"
         "getPathTarget st (butlast ?nodes) \<noteq> None \<longrightarrow> st1 = st"
      by (auto simp: getPathNodes_butlast_join)
    note sv = saveFileSync_after_ensure[OF assms en[unfolded Inr] d(1), of c]
    show ?thesis
    proof (cases "getPathTarget st (butlast ?nodes)")
      case None
      with d have "find_by_name (children d) (last ?nodes) = None" by simp
      with sv ok full None show ?thesis by simp
    next
      case (Some d0)
      with d have "d0 = d" by auto
      with sv ok full Some show ?thesis
        by (auto split: option.splits node.splits)
    qed
  qed
qed

lemma saveFileSync_then_load:
  assumes "fst (saveFileSync isIgnored p c st) = Inr ()"
  shows "fst (loadTextFileSync isIgnored p (snd (saveFileSync isIgnored p c st))) = Inr c"
proof -
  from assms have ni: "\<not> isIgnored p" and ne: "getPathNodes p \<noteq> []"
    by (auto simp: saveFileSync_def Let_def split: if_splits)
  from saveFileSync_ok_file[OF assms] obtain parent n fp where
    "getPathTarget (snd (saveFileSync isIgnored p c st)) (butlast (getPathNodes p)) = Some parent"
    "find_by_name (children parent) (last (getPathNodes p)) = Some (File n fp (Some c))"
    by blast
  with ni ne show ?thesis by (simp add: loadTextFileSync_def)
qed

lemma scenario_saveFile:
  "snd (saveFileSync (\<lambda>p. False) ''a/b.txt'' ''hi'' fresh) =
     \<lparr>root = Directory [] [] [Dir (Directory ''a'' ''a'' [File ''b.txt'' ''a/b.txt'' (Some ''hi'')])],
      emitted = [DirectoryCreated ''a'', FileCreated ''a/b.txt'' ''hi'']\<rparr>"
  by code_simp

subsection \<open>The files of a tree\<close>

lemma listedFiles_children:
  "listedFiles d =
     concat (map (\<lambda>child. case child of File n' fp' c' \<Rightarrow> [fp'] | Dir d' \<Rightarrow> listedFiles d')
               (children d))"
  by (cases d) simp

lemma listedFiles_child:
  "Dir d' \<in> set (children d) \<Longrightarrow> set (listedFiles d') \<subseteq> set (listedFiles d)"
  by (subst (2) listedFiles_children) force

lemma listedFiles_file:
  "File n fp c \<in> set (children d) \<Longrightarrow> fp \<in> set (listedFiles d)"
  by (subst listedFiles_children) force

lemma concat_replace_found:
  "set (concat (map F (replace_found nm new cs))) \<subseteq> set (F new) \<union> set (concat (map F cs))"
  by (induction cs) auto

lemma listedFiles_replace_Dir:
  "set (listedFiles (Directory n fp (replace_found nm (Dir d') (children cur)))) \<subseteq>
   set (listedFiles d') \<union> set (listedFiles cur)"
  using concat_replace_found[of "\<lambda>child. case child of File n' fp' c' \<Rightarrow> [fp'] | Dir d' \<Rightarrow> listedFiles d'"
      nm "Dir d'" "children cur"]
  by (simp add: listedFiles_children[of cur])

lemma listedFiles_replace_File:
  "set (listedFiles (Directory n fp (replace_found nm (File n' fp' c') (children cur)))) \<subseteq>
   insert fp' (set (listedFiles cur))"
  using concat_replace_found[of "\<lambda>child. case child of File n' fp' c' \<Rightarrow> [fp'] | Dir d' \<Rightarrow> listedFiles d'"
      nm "File n' fp' c'" "children cur"]
  by (simp add: listedFiles_children[of cur])

lemma listedFiles_parseTree:
  "listedFiles (parseTree d) = listedFiles d"
proof (induction d rule: parseTree.induct)
  case (1 n fp cs)
  have "(case (case child of File n' fp' c' \<Rightarrow> File (node_name child) (node_fullPath child) None
                | Dir d \<Rightarrow> Dir (parseTree d)) of
           File n' fp' c' \<Rightarrow> [fp'] | Dir d \<Rightarrow> listedFiles d) =
        (case child of File n' fp' c' \<Rightarrow> [fp'] | Dir d \<Rightarrow> listedFiles d)"
    if "child \<in> set cs" for child
  proof (cases child)
    case (File n' fp' c')
    then show ?thesis by simp
  next
    case (Dir d)
    with 1[of child d] that show ?thesis by simp
  qed
  then show ?case by (simp add: comp_def cong: map_cong)
qed

lemma ensureFrom_files:
  "ensureFrom cur names = (err, cur', evs) \<Longrightarrow> set (listedFiles cur') \<subseteq> set (listedFiles cur)"
proof (induction names arbitrary: cur cur' evs err)
  case Nil
  then show ?case by simp
next
  case (Cons nm rest)
  show ?case
  proof (cases "find_by_name (children cur) nm")
    case None
    let ?newDir = "Directory nm (if fullPath cur \<noteq> [] then fullPath cur @ pathSeparator # nm else nm) []"
    obtain err' nd' evs' where r: "ensureFrom ?newDir rest = (err', nd', evs')"
      by (cases "ensureFrom ?newDir rest") auto
    from Cons.IH[OF r] have "set (listedFiles nd') = {}" by simp
    moreover from Cons.prems None r
    have "cur' = Directory (name cur) (fullPath cur) (children cur @ [Dir nd'])"
      by (simp add: Let_def)
    ultimately show ?thesis by (simp add: listedFiles_children[of cur])
  next
    case (Some ch)
    show ?thesis
    proof (cases ch)
      case (File n fp co)
      with Cons.prems Some show ?thesis by auto
    next
      case (Dir nxt)
      obtain err' nxt' evs' where r: "ensureFrom nxt rest = (err', nxt', evs')"
        by (cases "ensureFrom nxt rest") auto
      from Cons.IH[OF r] have "set (listedFiles nxt') \<subseteq> set (listedFiles nxt)" .
      moreover have "set (listedFiles nxt) \<subseteq> set (listedFiles cur)"
        using find_by_name_Some[OF Some] Dir listedFiles_child by simp
      moreover from Cons.prems Some Dir r
      have "cur' = Directory (name cur) (fullPath cur) (replace_found nm (Dir nxt') (children cur))"
        by simp
      ultimately show ?thesis unfolding \<open>cur' = _\<close>
        using listedFiles_replace_Dir[of "name cur" "fullPath cur" nm nxt' cur]
        by blast
    qed
  qed
qed

lemma updatePathTargetFrom_files:
  "getPathTargetFrom cur names = Some d \<Longrightarrow> set (listedFiles (f d)) \<subseteq> set (listedFiles d) \<union> X \<Longrightarrow>
   set (listedFiles (updatePathTargetFrom f cur names)) \<subseteq> set (listedFiles cur) \<union> X"
proof (induction names arbitrary: cur)
  case Nil
  then show ?case by simp
next
  case (Cons nm rest)
  from Cons.prems obtain nxt where
    f: "find_by_name (children cur) nm = Some (Dir nxt)"
    and t: "getPathTargetFrom nxt rest = Some d"
    by (auto split: if_splits option.splits node.splits)
  from Cons.IH[of nxt, OF t Cons.prems(2)]
  have "set (listedFiles (updatePathTargetFrom f nxt rest)) \<subseteq> set (listedFiles nxt) \<union> X" .
  moreover have "set (listedFiles nxt) \<subseteq> set (listedFiles cur)"
    using find_by_name_Some[OF f] listedFiles_child by simp
  moreover have "updatePathTargetFrom f cur (nm # rest) =
      Directory (name cur) (fullPath cur)
        (replace_found nm (Dir (updatePathTargetFrom f nxt rest)) (children cur))"
    using f by simp
  ultimately show ?case
    using listedFiles_replace_Dir[of "name cur" "fullPath cur" nm "updatePathTargetFrom f nxt rest" cur]
    by (simp only:) blast
qed

lemma removeChildren_files:
  "set (listedFiles (removeChildren nm d)) \<subseteq> set (listedFiles d)"
  by (auto simp: removeChildren_def listedFiles_children[of d])

lemma ensureDirectorySync_files:
  "set (listedFiles (root (snd (ensureDirectorySync isIgnored q st)))) \<subseteq> set (listedFiles (root st))"
proof (cases "isIgnored q")
  case True
  then show ?thesis by (simp add: ensureDirectorySync_def)
next
  case False
  obtain err root' evs where r: "ensureFrom (root st) (getPathNodes q) = (err, root', evs)"
    by (cases "ensureFrom (root st) (getPathNodes q)") auto
  from ensureFrom_files[OF r] False r show ?thesis by (simp add: ensureDirectorySync_def)
qed

lemma deleteFileSync_files:
  "set (listedFiles (root (snd (deleteFileSync isIgnored q st)))) \<subseteq> set (listedFiles (root st))"
proof -
  have "set (listedFiles (updatePathTargetFrom (removeChildren n) (root st) (butlast (getPathNodes q))))
      \<subseteq> set (listedFiles (root st))"
    if "getPathTarget st (butlast (getPathNodes q)) = Some d" for n d
    using updatePathTargetFrom_files[of "root st" "butlast (getPathNodes q)" d "removeChildren n" "{}"]
      that removeChildren_files[of n d]
    by (simp add: getPathTarget_def)
  then show ?thesis
    by (auto simp: deleteFileSync_def Let_def split: option.splits node.splits if_splits)
qed

lemma deleteDirectorySync_files:
  "set (listedFiles (root (snd (deleteDirectorySync isIgnored q recursive st)))) \<subseteq> set (listedFiles (root st))"
proof -
  have "set (listedFiles (updatePathTargetFrom (removeChildren n) (root st) (butlast (getPathNodes q))))
      \<subseteq> set (listedFiles (root st))"
    if "getPathTarget st (butlast (getPathNodes q)) = Some d" for n d
    using updatePathTargetFrom_files[of "root st" "butlast (getPathNodes q)" d "removeChildren n" "{}"]
      that removeChildren_files[of n d]
    by (simp add: getPathTarget_def)
  then show ?thesis
    by (auto simp: deleteDirectorySync_def Let_def split: option.splits node.splits if_splits)
qed

lemma saveFileSync_files:
  "set (listedFiles (root (snd (saveFileSync isIgnored p c st)))) \<subseteq>
   set (listedFiles (root st)) \<union> {fp. \<not> isIgnored fp}"
proof (cases "isIgnored p \<or> getPathNodes p = []")
  case True
  then show ?thesis by (auto simp: saveFileSync_def Let_def)
next
  case False
  then have ni: "\<not> isIgnored p" and ne: "getPathNodes p \<noteq> []" by auto
  let ?nodes = "getPathNodes p"
  let ?q = "join pathSeparator (butlast ?nodes)"
  obtain r st1 where en: "ensureDirectorySync isIgnored ?q st = (r, st1)"
    by (cases "ensureDirectorySync isIgnored ?q st") auto
  have f1: "set (listedFiles (root st1)) \<subseteq> set (listedFiles (root st))"
    using ensureDirectorySync_files[of isIgnored ?q st] en by simp
  show ?thesis
  proof (cases r)
    case (Inl e)
    with en ni ne getPathNodes_last[OF ne] f1 show ?thesis
      by (auto simp: saveFileSync_def Let_def)
  next
    case (Inr u)
    from ensureDirectorySync_ok_target[of isIgnored ?q st u st1] en Inr obtain d where
      d: "getPathTarget st1 (butlast ?nodes) = Some d"
      by (auto simp: getPathNodes_butlast_join)
    note sv = saveFileSync_after_ensure[OF ni ne en[unfolded Inr] d, of c]
    have upd: "set (listedFiles (updatePathTargetFrom f (root st1) (butlast ?nodes)))
        \<subseteq> set (listedFiles (root st1)) \<union> {fp. \<not> isIgnored fp}"
      if "set (listedFiles (f d)) \<subseteq> set (listedFiles d) \<union> {fp. \<not> isIgnored fp}" for f
      using updatePathTargetFrom_files[of "root st1" "butlast ?nodes" d f "{fp. \<not> isIgnored fp}"] d that
      by (simp add: getPathTarget_def)
    show ?thesis
    proof (cases "find_by_name (children d) (last ?nodes)")
      case None
      let ?f = "\<lambda>d. Directory (name d) (fullPath d) (children d @ [File (last ?nodes) p (Some c)])"
      have "set (listedFiles (?f d)) \<subseteq> set (listedFiles d) \<union> {fp. \<not> isIgnored fp}"
        using ni by (auto simp: listedFiles_children[of d])
      from upd[of ?f, OF this] sv None f1 show ?thesis by auto
    next
      case (Some ch)
      show ?thesis
      proof (cases ch)
        case (Dir x)
        with sv Some f1 show ?thesis by auto
      next
        case (File n fp c0)
        let ?f = "\<lambda>d. Directory (name d) (fullPath d)
                       (replace_found (last ?nodes) (File n fp (Some c)) (children d))"
        have "File n fp c0 \<in> set (children d)"
          using find_by_name_Some[OF Some] File by auto
        then have "fp \<in> set (listedFiles d)" by (rule listedFiles_file)
        then have "set (listedFiles (?f d)) \<subseteq> set (listedFiles d) \<union> {fp. \<not> isIgnored fp}"
          using listedFiles_replace_File[of "name d" "fullPath d" "last ?nodes" n fp "Some c" d]
          by blast
        from upd[of ?f, OF this] sv Some File f1 show ?thesis by (auto split: if_splits)
      qed
    qed
  qed
qed

lemma reachable_files:
  "reachable isIgnored st \<Longrightarrow> \<forall>fp\<in>set (listedFiles (root st)). \<not> isIgnored fp"
proof (induction rule: reachable.induct)
  case reach_fresh
  then show ?case by (simp add: fresh_def)
next
  case (reach_saveFile st p c)
  then show ?case using saveFileSync_files[of isIgnored p c st] by blast
next
  case (reach_ensureDirectory st p)
  then show ?case using ensureDirectorySync_files[of isIgnored p st] by blast
next
  case (reach_deleteFile st p)
  then show ?case using deleteFileSync_files[of isIgnored p st] by blast
next
  case (reach_deleteDirectory st p recursive)
  then show ?case using deleteDirectorySync_files[of isIgnored p recursive st] by blast
next
  case (reach_loadTextFile st p)
  then show ?case by (simp add: loadTextFileSync_def Let_def split: option.splits node.splits)
next
  case (reach_loadDirectoryTree st po)
  then show ?case by (simp add: loadDirectoryTreeSync_def Let_def split: option.splits)
next
  case (reach_loadDirectoryChildren st p)
  then show ?case by (simp add: loadDirectoryChildrenSync_def Let_def split: option.splits)
qed

section \<open>The claims\<close>

subsection \<open>C1: the scenario of loadDirectoryTree\<close>

text \<open>
  Claim C1, as amended. After \<open>saveFile('a/b.txt', 'hi')\<close> on a fresh store,
  \<open>loadDirectoryTree()\<close> returns the root directory whose only child is the directory
  \<open>a\<close>, whose only child is the file \<open>b.txt\<close> with the full path \<open>a/b.txt\<close> and no
  content: \<open>parseTree\<close> copies a file by its name and its full path only. The content
  \<open>hi\<close> is what \<open>loadTextFile('a/b.txt')\<close> returns.
\<close>

theorem loadDirectoryTree_scenario:
  "fst (loadDirectoryTreeSync (\<lambda>p. False) None
         (snd (saveFileSync (\<lambda>p. False) ''a/b.txt'' ''hi'' fresh))) =
     Inr (Directory [] [] [Dir (Directory ''a'' ''a'' [File ''b.txt'' ''a/b.txt'' None])]) \<and>
   fst (loadTextFileSync (\<lambda>p. False) ''a/b.txt''
         (snd (saveFileSync (\<lambda>p. False) ''a/b.txt'' ''hi'' fresh))) = Inr ''hi''"
  by code_simp

text \<open>
  Claim C1 as stated fails: the returned tree has no directory \<open>a\<close> with a file
  \<open>b.txt\<close> whose content is \<open>hi\<close>.
\<close>

theorem loadDirectoryTree_scenario_counterexample:
  "\<not> (\<exists>r a fp.
        fst (loadDirectoryTreeSync (\<lambda>p. False) None
              (snd (saveFileSync (\<lambda>p. False) ''a/b.txt'' ''hi'' fresh))) = Inr r \<and>
        Dir a \<in> set (children r) \<and> name a = ''a'' \<and>
        File ''b.txt'' fp (Some ''hi'') \<in> set (children a))"
  by (auto simp: scenario_saveFile loadDirectoryTreeSync_def getPathNodes_def)

subsection \<open>C2: events of a recursive deletion\<close>

text \<open>
  Claim C2 does not hold of the code. \<open>ensureDirectory('a/b')\<close> on a fresh store and then
  \<open>deleteDirectory('a', true)\<close> emit, after the two \<open>directoryCreated\<close> events,
  \<open>directoryDeleted\<close> for \<open>a\<close> and for \<open>a/b\<close> and then \<open>fileDeleted\<close> for the directory
  \<open>a/b\<close>, which is not a file.
\<close>

theorem recursive_deletion_events:
  "deleteDirectorySync (\<lambda>p. False) ''a'' True
     (snd (ensureDirectorySync (\<lambda>p. False) ''a/b'' fresh)) =
   (Inr (),
    \<lparr>root = Directory [] [] [],
     emitted = [DirectoryCreated ''a'', DirectoryCreated ''a/b'',
                DirectoryDeleted ''a'', DirectoryDeleted ''a/b'', FileDeleted ''a/b'']\<rparr>)"
  by code_simp

subsection \<open>C3: ignored paths\<close>

text \<open>
  Claim C3, as amended. For every ignore predicate and every path \<open>p\<close> that it matches:
  \<open>saveFile(p, c)\<close> throws the error of an ignored path, of the kind \<open>IllegalPath\<close>, for
  every content and every store, and leaves the store as it was; and in every store reached
  by the operations of the contract, the tree that \<open>loadDirectoryTree()\<close> returns holds no
  file whose full path is \<open>p\<close>. Nothing is said of directories, nor of the nodes below
  \<open>p\<close>: \<open>parseTree\<close> copies the stored tree without consulting the predicate, and
  \<open>ensureDirectorySync\<close> tests the whole path only, not its prefixes.
\<close>

theorem ignored_path_invisible:
  assumes "isIgnored p"
  shows "saveFileSync isIgnored p c st = (Inl (UnableToSaveIgnored p), st) \<and>
         kind_of (UnableToSaveIgnored p) = IllegalPath \<and>
         (reachable isIgnored st \<and> fst (loadDirectoryTreeSync isIgnored None st) = Inr r \<longrightarrow>
            p \<notin> set (listedFiles r))"
proof -
  have "p \<notin> set (listedFiles r)"
    if re: "reachable isIgnored st" and ld: "fst (loadDirectoryTreeSync isIgnored None st) = Inr r"
  proof -
    from ld have "r = parseTree (root st)"
      by (auto simp: loadDirectoryTreeSync_def getPathNodes_def split: if_splits)
    then have "listedFiles r = listedFiles (root st)" by (simp add: listedFiles_parseTree)
    with reachable_files[OF re] assms show ?thesis by auto
  qed
  with assms show ?thesis by (simp add: saveFileSync_def)
qed

theorem ignored_path_invisible_witness:
  "(\<lambda>p. p = ''a'') ''a'' \<and>
   reachable (\<lambda>p. p = ''a'') (snd (saveFileSync (\<lambda>p. p = ''a'') ''b.txt'' ''x'' fresh)) \<and>
   fst (loadDirectoryTreeSync (\<lambda>p. p = ''a'') None
         (snd (saveFileSync (\<lambda>p. p = ''a'') ''b.txt'' ''x'' fresh))) =
     Inr (Directory [] [] [File ''b.txt'' ''b.txt'' None]) \<and>
   saveFileSync (\<lambda>p. p = ''a'') ''a'' ''y'' (snd (saveFileSync (\<lambda>p. p = ''a'') ''b.txt'' ''x'' fresh)) =
     (Inl (UnableToSaveIgnored ''a''), snd (saveFileSync (\<lambda>p. p = ''a'') ''b.txt'' ''x'' fresh)) \<and>
   ''a'' \<notin> set (listedFiles (Directory [] [] [File ''b.txt'' ''b.txt'' None]))"
proof -
  let ?ig = "\<lambda>p. p = ''a''"
  let ?st = "snd (saveFileSync ?ig ''b.txt'' ''x'' fresh)"
  have h: "?ig ''a''" by simp
  have re: "reachable ?ig ?st" by (intro reach_saveFile reach_fresh)
  have ld: "fst (loadDirectoryTreeSync ?ig None ?st) =
      Inr (Directory [] [] [File ''b.txt'' ''b.txt'' None])"
    by code_simp
  from ignored_path_invisible[of ?ig "''a''" "''y''" ?st "Directory [] [] [File ''b.txt'' ''b.txt'' None]", OF h]
    re ld
  show ?thesis by simp
qed

text \<open>
  Claim C3 as stated fails: with the predicate that ignores the path \<open>a\<close> only,
  \<open>ensureDirectory('a/b')\<close> on a fresh store succeeds, and \<open>loadDirectoryTree()\<close> then
  lists the directory \<open>a\<close>.
\<close>

theorem ignored_path_invisible_counterexample:
  "(\<lambda>p. p = ''a'') ''a'' \<and>
   reachable (\<lambda>p. p = ''a'') (snd (ensureDirectorySync (\<lambda>p. p = ''a'') ''a/b'' fresh)) \<and>
   fst (loadDirectoryTreeSync (\<lambda>p. p = ''a'') None
         (snd (ensureDirectorySync (\<lambda>p. p = ''a'') ''a/b'' fresh))) =
     Inr (Directory [] [] [Dir (Directory ''a'' ''a'' [Dir (Directory ''b'' ''a/b'' [])])]) \<and>
   ''a'' \<in> set (listedPaths (Directory [] [] [Dir (Directory ''a'' ''a'' [Dir (Directory ''b'' ''a/b'' [])])]))"
proof -
  have "fst (loadDirectoryTreeSync (\<lambda>p. p = ''a'') None
         (snd (ensureDirectorySync (\<lambda>p. p = ''a'') ''a/b'' fresh))) =
     Inr (Directory [] [] [Dir (Directory ''a'' ''a'' [Dir (Directory ''b'' ''a/b'' [])])])"
    by code_simp
  moreover have "reachable (\<lambda>p. p = ''a'') (snd (ensureDirectorySync (\<lambda>p. p = ''a'') ''a/b'' fresh))"
    by (intro reach_ensureDirectory reach_fresh)
  ultimately show ?thesis by simp
qed

subsection \<open>C4: deleteFile of the root\<close>

text \<open>
  Claim C4 does not hold of the code. \<open>deleteFile\<close> of the empty path, or of a path
  that has no segment, returns without an error and leaves the store as it was.
\<close>

theorem deleteFile_root_is_silent:
  "deleteFileSync isIgnored [] st = (Inr (), st) \<and>
   deleteFileSync isIgnored ''/'' st = (Inr (), st)"
  by (simp add: deleteFileSync_def getPathNodes_def pathSeparator_def)

subsection \<open>C5: the three cases of saveFile\<close>

text \<open>
  Claim C5, as amended. For a path \<open>p\<close> that is not ignored and is not the root, and
  whose parent path is not ignored:
  if the parent of \<open>p\<close> resolves to a directory whose child of the last name is a file
  with a content other than \<open>c\<close>, then \<open>saveFile(p, c)\<close> succeeds; the store it leaves is
  the store before the call with that file, of the same name and full path, now of the
  content \<open>c\<close>, every other node as it was, and with the one event \<open>fileChanged\<close> added
  to the events;
  if that file has the content \<open>c\<close> already, the call succeeds and leaves the store as it
  was, with no event;
  if nothing exists at \<open>p\<close> and no segment of the parent's path is occupied by a file, the
  call succeeds; the store it leaves is the store before the call with the missing
  ancestor directories created and the file of the last name, the full path \<open>p\<close> and the
  content \<open>c\<close> added as the last child of the parent, every other node as it was, and the
  events added are one \<open>directoryCreated\<close> for each missing ancestor directory, with its
  accumulated path, the outermost first, and then the one event \<open>fileCreated\<close>.
\<close>

theorem saveFile_cases:
  assumes "\<not> isIgnored p" "getPathNodes p \<noteq> []"
    and "\<not> isIgnored (join pathSeparator (butlast (getPathNodes p)))"
  shows
   "(getPathTarget st (butlast (getPathNodes p)) = Some parent \<and>
     find_by_name (children parent) (last (getPathNodes p)) = Some (File n fp c0) \<and>
     c0 \<noteq> Some c \<longrightarrow>
       saveFileSync isIgnored p c st =
         (Inr (),
          st\<lparr>root := withChild (root st) (butlast (getPathNodes p)) (last (getPathNodes p))
                        (File n fp (Some c)),
              emitted := emitted st @ [FileChanged p c]\<rparr>) \<and>
       getPathTarget (snd (saveFileSync isIgnored p c st)) (butlast (getPathNodes p)) =
         Some (Directory (name parent) (fullPath parent)
                 (replace_found (last (getPathNodes p)) (File n fp (Some c)) (children parent))) \<and>
       find_by_name (replace_found (last (getPathNodes p)) (File n fp (Some c)) (children parent))
         (last (getPathNodes p)) = Some (File n fp (Some c))) \<and>
    (getPathTarget st (butlast (getPathNodes p)) = Some parent \<and>
     find_by_name (children parent) (last (getPathNodes p)) = Some (File n fp (Some c)) \<longrightarrow>
       saveFileSync isIgnored p c st = (Inr (), st)) \<and>
    (\<not> fileOnPath (root st) (butlast (getPathNodes p)) \<and>
     (\<forall>d. getPathTarget st (butlast (getPathNodes p)) = Some d \<longrightarrow>
           find_by_name (children d) (last (getPathNodes p)) = None) \<longrightarrow>
       saveFileSync isIgnored p c st =
         (Inr (),
          st\<lparr>root := withNode (root st) (butlast (getPathNodes p))
                        (File (last (getPathNodes p)) p (Some c)),
              emitted := emitted st @
                         map DirectoryCreated (missingDirs (root st) (butlast (getPathNodes p))) @
                         [FileCreated p c]\<rparr>) \<and>
       (\<exists>parent'.
          getPathTarget (snd (saveFileSync isIgnored p c st)) (butlast (getPathNodes p)) =
            Some parent' \<and>
          find_by_name (children parent') (last (getPathNodes p)) =
            Some (File (last (getPathNodes p)) p (Some c))))"
proof (intro conjI impI)
  assume a: "getPathTarget st (butlast (getPathNodes p)) = Some parent \<and>
     find_by_name (children parent) (last (getPathNodes p)) = Some (File n fp c0) \<and> c0 \<noteq> Some c"
  let ?f = "\<lambda>d. Directory (name d) (fullPath d)
                   (replace_found (last (getPathNodes p)) (File n fp (Some c)) (children d))"
  from a have t: "getPathTarget st (butlast (getPathNodes p)) = Some parent"
    and f: "find_by_name (children parent) (last (getPathNodes p)) = Some (File n fp c0)"
    and ne: "c0 \<noteq> Some c" by auto
  note sv = saveFileSync_existing_file[OF assms t f, of c]
  show "saveFileSync isIgnored p c st =
         (Inr (),
          st\<lparr>root := withChild (root st) (butlast (getPathNodes p)) (last (getPathNodes p))
                        (File n fp (Some c)),
              emitted := emitted st @ [FileChanged p c]\<rparr>)"
    using sv ne by (simp add: updatePathTargetFrom_withChild)
  show "getPathTarget (snd (saveFileSync isIgnored p c st)) (butlast (getPathNodes p)) =
         Some (Directory (name parent) (fullPath parent)
                 (replace_found (last (getPathNodes p)) (File n fp (Some c)) (children parent)))"
    using sv ne getPathTarget_update[of st "butlast (getPathNodes p)" parent ?f, OF t] by simp
  show "find_by_name (replace_found (last (getPathNodes p)) (File n fp (Some c)) (children parent))
         (last (getPathNodes p)) = Some (File n fp (Some c))"
    using find_by_name_replace_found[OF _ f, of "File n fp (Some c)"] find_by_name_Some[OF f]
    by simp
next
  assume a: "getPathTarget st (butlast (getPathNodes p)) = Some parent \<and>
     find_by_name (children parent) (last (getPathNodes p)) = Some (File n fp (Some c))"
  then show "saveFileSync isIgnored p c st = (Inr (), st)"
    using saveFileSync_existing_file[OF assms, of st parent n fp "Some c" c] by simp
next
  assume a: "\<not> fileOnPath (root st) (butlast (getPathNodes p)) \<and>
     (\<forall>d. getPathTarget st (butlast (getPathNodes p)) = Some d \<longrightarrow>
           find_by_name (children d) (last (getPathNodes p)) = None)"
  then show "saveFileSync isIgnored p c st =
         (Inr (),
          st\<lparr>root := withNode (root st) (butlast (getPathNodes p))
                        (File (last (getPathNodes p)) p (Some c)),
              emitted := emitted st @
                         map DirectoryCreated (missingDirs (root st) (butlast (getPathNodes p))) @
                         [FileCreated p c]\<rparr>)"
    using saveFileSync_new_file_store[OF assms, of st c] by blast
  from a show "\<exists>parent'.
          getPathTarget (snd (saveFileSync isIgnored p c st)) (butlast (getPathNodes p)) =
            Some parent' \<and>
          find_by_name (children parent') (last (getPathNodes p)) =
            Some (File (last (getPathNodes p)) p (Some c))"
    using saveFileSync_new_file[OF assms, of st c] by blast
qed

theorem saveFile_cases_witness:
  "getPathTarget
     \<lparr>root = Directory [] [] [File ''k'' ''k'' (Some ''v''),
                              Dir (Directory ''a'' ''a'' [File ''b.txt'' ''a/b.txt'' (Some ''hi'')])],
      emitted = []\<rparr> (butlast (getPathNodes ''a/b.txt'')) =
     Some (Directory ''a'' ''a'' [File ''b.txt'' ''a/b.txt'' (Some ''hi'')]) \<and>
   find_by_name [File ''b.txt'' ''a/b.txt'' (Some ''hi'')] (last (getPathNodes ''a/b.txt'')) =
     Some (File ''b.txt'' ''a/b.txt'' (Some ''hi'')) \<and>
   saveFileSync (\<lambda>p. False) ''a/b.txt'' ''ho''
     \<lparr>root = Directory [] [] [File ''k'' ''k'' (Some ''v''),
                              Dir (Directory ''a'' ''a'' [File ''b.txt'' ''a/b.txt'' (Some ''hi'')])],
      emitted = []\<rparr> =
     (Inr (),
      \<lparr>root = Directory [] [] [File ''k'' ''k'' (Some ''v''),
                               Dir (Directory ''a'' ''a'' [File ''b.txt'' ''a/b.txt'' (Some ''ho'')])],
       emitted = [FileChanged ''a/b.txt'' ''ho'']\<rparr>) \<and>
   saveFileSync (\<lambda>p. False) ''a/b.txt'' ''hi''
     \<lparr>root = Directory [] [] [File ''k'' ''k'' (Some ''v''),
                              Dir (Directory ''a'' ''a'' [File ''b.txt'' ''a/b.txt'' (Some ''hi'')])],
      emitted = []\<rparr> =
     (Inr (),
      \<lparr>root = Directory [] [] [File ''k'' ''k'' (Some ''v''),
                               Dir (Directory ''a'' ''a'' [File ''b.txt'' ''a/b.txt'' (Some ''hi'')])],
       emitted = []\<rparr>) \<and>
   \<not> fileOnPath (Directory [] [] [File ''k'' ''k'' (Some ''v'')])
       (butlast (getPathNodes ''a/b/c.txt'')) \<and>
   getPathTarget \<lparr>root = Directory [] [] [File ''k'' ''k'' (Some ''v'')], emitted = []\<rparr>
       (butlast (getPathNodes ''a/b/c.txt'')) = None \<and>
   saveFileSync (\<lambda>p. False) ''a/b/c.txt'' ''hi''
     \<lparr>root = Directory [] [] [File ''k'' ''k'' (Some ''v'')], emitted = []\<rparr> =
     (Inr (),
      \<lparr>root = Directory [] []
                [File ''k'' ''k'' (Some ''v''),
                 Dir (Directory ''a'' ''a''
                   [Dir (Directory ''b'' ''a/b'' [File ''c.txt'' ''a/b/c.txt'' (Some ''hi'')])])],
       emitted = [DirectoryCreated ''a'', DirectoryCreated ''a/b'',
                  FileCreated ''a/b/c.txt'' ''hi'']\<rparr>)"
proof -
  let ?ig = "\<lambda>p::string. False"
  let ?parent = "Directory ''a'' ''a'' [File ''b.txt'' ''a/b.txt'' (Some ''hi'')]"
  let ?st = "\<lparr>root = Directory [] [] [File ''k'' ''k'' (Some ''v''), Dir ?parent], emitted = []\<rparr>"
  let ?sk = "\<lparr>root = Directory [] [] [File ''k'' ''k'' (Some ''v'')], emitted = []\<rparr>"
  have h1: "\<not> ?ig ''a/b.txt''" and k1: "\<not> ?ig ''a/b/c.txt''" by simp_all
  have h2: "getPathNodes ''a/b.txt'' \<noteq> []" and k2: "getPathNodes ''a/b/c.txt'' \<noteq> []"
    by code_simp+
  have h3: "\<not> ?ig (join pathSeparator (butlast (getPathNodes ''a/b.txt'')))"
    and k3: "\<not> ?ig (join pathSeparator (butlast (getPathNodes ''a/b/c.txt'')))" by simp_all
  have n: "butlast (getPathNodes ''a/b.txt'') = [''a'']" "last (getPathNodes ''a/b.txt'') = ''b.txt''"
    "butlast (getPathNodes ''a/b/c.txt'') = [''a'', ''b'']" "last (getPathNodes ''a/b/c.txt'') = ''c.txt''"
    by code_simp+
  have t: "getPathTarget ?st (butlast (getPathNodes ''a/b.txt'')) = Some ?parent" by code_simp
  have f: "find_by_name (children ?parent) (last (getPathNodes ''a/b.txt'')) =
     Some (File ''b.txt'' ''a/b.txt'' (Some ''hi''))" by code_simp
  have b: "\<not> fileOnPath (root ?sk) (butlast (getPathNodes ''a/b/c.txt''))" by code_simp
  have g: "getPathTarget ?sk (butlast (getPathNodes ''a/b/c.txt'')) = None" by code_simp
  note A = saveFile_cases[of ?ig "''a/b.txt''" ?st ?parent "''b.txt''" "''a/b.txt''"
      "Some ''hi''" "''ho''", OF h1 h2 h3]
  note B = saveFile_cases[of ?ig "''a/b.txt''" ?st ?parent "''b.txt''" "''a/b.txt''"
      "Some ''hi''" "''hi''", OF h1 h2 h3]
  note C = saveFile_cases[of ?ig "''a/b/c.txt''" ?sk ?parent "''b.txt''" "''a/b.txt''"
      "Some ''hi''" "''hi''", OF k1 k2 k3]
  from A t f have a: "saveFileSync ?ig ''a/b.txt'' ''ho'' ?st =
     (Inr (),
      \<lparr>root = Directory [] [] [File ''k'' ''k'' (Some ''v''),
                               Dir (Directory ''a'' ''a'' [File ''b.txt'' ''a/b.txt'' (Some ''ho'')])],
       emitted = [FileChanged ''a/b.txt'' ''ho'']\<rparr>)"
    by (simp add: n)
  from B t f have b': "saveFileSync ?ig ''a/b.txt'' ''hi'' ?st = (Inr (), ?st)" by simp
  from C b g have c: "saveFileSync ?ig ''a/b/c.txt'' ''hi'' ?sk =
     (Inr (),
      \<lparr>root = Directory [] []
                [File ''k'' ''k'' (Some ''v''),
                 Dir (Directory ''a'' ''a''
                   [Dir (Directory ''b'' ''a/b'' [File ''c.txt'' ''a/b/c.txt'' (Some ''hi'')])])],
       emitted = [DirectoryCreated ''a'', DirectoryCreated ''a/b'',
                  FileCreated ''a/b/c.txt'' ''hi'']\<rparr>)"
    by (simp add: n childPath_def pathSeparator_def)
  from t f a b' b g c show ?thesis by simp
qed

text \<open>
  Claim C5 as stated fails: after \<open>saveFile('a', 'x')\<close> on a fresh store, \<open>a/b\<close> is
  neither ignored nor the root and nothing exists there, and \<open>saveFile('a/b', 'y')\<close>
  throws, the file \<open>a\<close> being in the way, and creates nothing.
\<close>

theorem saveFile_cases_counterexample:
  "\<not> (\<lambda>p. False) ''a/b'' \<and> getPathNodes ''a/b'' \<noteq> [] \<and>
   getPathTarget (snd (saveFileSync (\<lambda>p. False) ''a'' ''x'' fresh)) (butlast (getPathNodes ''a/b'')) = None \<and>
   saveFileSync (\<lambda>p. False) ''a/b'' ''y'' (snd (saveFileSync (\<lambda>p. False) ''a'' ''x'' fresh)) =
     (Inl (FileIsNotADirectory ''a''), snd (saveFileSync (\<lambda>p. False) ''a'' ''x'' fresh))"
  by code_simp

subsection \<open>C6: full paths of saved files\<close>

text \<open>
  Claim C6 does not hold of the code. \<open>saveFile('a//b.txt', 'hi')\<close> on a fresh store
  stores the file \<open>b.txt\<close> below the directory \<open>a\<close> with the full path \<open>a//b.txt\<close>, the
  argument as it was given, and not \<open>a/b.txt\<close>, the join of the names: the store reached
  breaks the invariant, which the store reached by \<open>saveFile('a/b.txt', 'hi')\<close> satisfies.
\<close>

theorem saveFile_keeps_raw_path:
  "reachable (\<lambda>p. False) (snd (saveFileSync (\<lambda>p. False) ''a//b.txt'' ''hi'' fresh)) \<and>
   root (snd (saveFileSync (\<lambda>p. False) ''a//b.txt'' ''hi'' fresh)) =
     Directory [] [] [Dir (Directory ''a'' ''a'' [File ''b.txt'' ''a//b.txt'' (Some ''hi'')])] \<and>
   \<not> pathsConsistent [] (root (snd (saveFileSync (\<lambda>p. False) ''a//b.txt'' ''hi'' fresh))) \<and>
   pathsConsistent [] (root (snd (saveFileSync (\<lambda>p. False) ''a/b.txt'' ''hi'' fresh)))"
proof -
  have "root (snd (saveFileSync (\<lambda>p. False) ''a//b.txt'' ''hi'' fresh)) =
     Directory [] [] [Dir (Directory ''a'' ''a'' [File ''b.txt'' ''a//b.txt'' (Some ''hi'')])]"
    by code_simp
  moreover have "\<not> pathsConsistent []
     (Directory [] [] [Dir (Directory ''a'' ''a'' [File ''b.txt'' ''a//b.txt'' (Some ''hi'')])])"
    by (simp add: pathSeparator_def)
  moreover have "pathsConsistent [] (root (snd (saveFileSync (\<lambda>p. False) ''a/b.txt'' ''hi'' fresh)))"
    by (simp add: scenario_saveFile pathSeparator_def)
  ultimately show ?thesis
    by (simp add: reach_fresh reach_saveFile)
qed

subsection \<open>C7: saving and loading a file\<close>

text \<open>
  Claim C7, as amended. For a path \<open>p\<close> that is not ignored and is not the root, and any
  content \<open>c\<close>: \<open>saveFile(p, c)\<close> succeeds exactly when the path of the parent is not
  ignored, no segment of the parent's path is occupied by a file, and \<open>p\<close> does not
  resolve to a directory; and whenever it succeeds, \<open>loadTextFile(p)\<close> on the store it
  leaves returns exactly \<open>c\<close>.
\<close>

theorem saveFile_loadTextFile_roundtrip:
  assumes "\<not> isIgnored p" "getPathNodes p \<noteq> []"
  shows "(fst (saveFileSync isIgnored p c st) = Inr () \<longleftrightarrow>
            \<not> isIgnored (join pathSeparator (butlast (getPathNodes p))) \<and>
            \<not> fileOnPath (root st) (butlast (getPathNodes p)) \<and>
            getPathTarget st (getPathNodes p) = None) \<and>
         (fst (saveFileSync isIgnored p c st) = Inr () \<longrightarrow>
            fst (loadTextFileSync isIgnored p (snd (saveFileSync isIgnored p c st))) = Inr c)"
  using saveFileSync_ok_iff[of isIgnored p c st, OF assms]
    saveFileSync_then_load[of isIgnored p c st] by blast

theorem saveFile_loadTextFile_roundtrip_witness:
  "\<not> (\<lambda>p. p = ''tmp'') ''a/b.txt'' \<and> getPathNodes ''a/b.txt'' \<noteq> [] \<and>
   \<not> (\<lambda>p. p = ''tmp'') (join pathSeparator (butlast (getPathNodes ''a/b.txt''))) \<and>
   \<not> fileOnPath (root fresh) (butlast (getPathNodes ''a/b.txt'')) \<and>
   getPathTarget fresh (getPathNodes ''a/b.txt'') = None \<and>
   fst (saveFileSync (\<lambda>p. p = ''tmp'') ''a/b.txt'' ''hi'' fresh) = Inr () \<and>
   fst (loadTextFileSync (\<lambda>p. p = ''tmp'') ''a/b.txt''
         (snd (saveFileSync (\<lambda>p. p = ''tmp'') ''a/b.txt'' ''hi'' fresh))) = Inr ''hi''"
proof -
  have h1: "\<not> (\<lambda>p. p = ''tmp'') ''a/b.txt''" by simp
  have h2: "getPathNodes ''a/b.txt'' \<noteq> []" by code_simp
  have h3: "\<not> (\<lambda>p. p = ''tmp'') (join pathSeparator (butlast (getPathNodes ''a/b.txt'')))"
    by code_simp
  have h4: "\<not> fileOnPath (root fresh) (butlast (getPathNodes ''a/b.txt''))" by code_simp
  have h5: "getPathTarget fresh (getPathNodes ''a/b.txt'') = None" by code_simp
  from saveFile_loadTextFile_roundtrip[of "\<lambda>p. p = ''tmp''" "''a/b.txt''" "''hi''" fresh, OF h1 h2]
    h1 h2 h3 h4 h5
  show ?thesis by blast
qed

text \<open>
  Claim C7 as stated fails: \<open>d\<close> is neither ignored nor the root, and after
  \<open>ensureDirectory('d')\<close> on a fresh store \<open>saveFile('d', 'x')\<close> throws.
\<close>

theorem saveFile_loadTextFile_roundtrip_counterexample:
  "\<not> (\<lambda>p. False) ''d'' \<and> getPathNodes ''d'' \<noteq> [] \<and>
   fst (saveFileSync (\<lambda>p. False) ''d'' ''x'' (snd (ensureDirectorySync (\<lambda>p. False) ''d'' fresh)))
     = Inl (FileSaveError ''d'')"
  by code_simp

subsection \<open>C8: ensureDirectory is idempotent\<close>

text \<open>
  Claim C8. For a path \<open>p\<close> that is not ignored and has no segment occupied by a file,
  \<open>ensureDirectory(p)\<close> succeeds; a second \<open>ensureDirectory(p)\<close> on the store that the
  first one leaves succeeds too and returns that very store, so it changes no tree and emits
  no event, and so does every later call; and the events of the first call are one
  \<open>directoryCreated\<close> for each prefix of the path that resolves to a directory after the
  call and did not before it, in order, and nothing else. The witness is the scenario of the
  claim: \<open>ensureDirectory('x')\<close> on a fresh store emits the one event
  \<open>directoryCreated\<close> with the path \<open>x\<close>, and a second call emits none.
\<close>

theorem ensureDirectory_idempotent:
  assumes "\<not> isIgnored p" "\<not> fileOnPath (root st) (getPathNodes p)"
  shows "fst (ensureDirectorySync isIgnored p st) = Inr () \<and>
         ensureDirectorySync isIgnored p (snd (ensureDirectorySync isIgnored p st)) =
           (Inr (), snd (ensureDirectorySync isIgnored p st)) \<and>
         emitted (snd (ensureDirectorySync isIgnored p st)) =
           emitted st @
           concat (map (createdAt (root st) (root (snd (ensureDirectorySync isIgnored p st))))
                     (nonEmptyPrefixes (getPathNodes p)))"
proof -
  obtain r st1 where en: "ensureDirectorySync isIgnored p st = (r, st1)"
    by (cases "ensureDirectorySync isIgnored p st") auto
  have ok: "fst (ensureDirectorySync isIgnored p st) = Inr ()"
    using assms by (simp add: ensureDirectorySync_ok_iff)
  with en have r: "r = Inr ()" by simp
  from ensureDirectorySync_ok_target[of isIgnored p st "()" st1] en r obtain d where
    "getPathTarget st1 (getPathNodes p) = Some d" by auto
  then have again: "ensureDirectorySync isIgnored p st1 = (Inr (), st1)"
    using assms(1) by (rule ensureDirectorySync_existing[rotated])
  obtain err root' evs where ef: "ensureFrom (root st) (getPathNodes p) = (err, root', evs)"
    by (cases "ensureFrom (root st) (getPathNodes p)") auto
  with en r assms(1) have e: "err = None"
    and st1: "st1 = st\<lparr>root := root', emitted := emitted st @ evs\<rparr>"
    by (auto simp: ensureDirectorySync_def split: option.splits)
  have ne: "\<forall>s\<in>set (getPathNodes p). s \<noteq> []" using getPathNodes_segments by blast
  from ensureFrom_created[OF ne ef[unfolded e]] st1
  have "emitted st1 = emitted st @
      concat (map (createdAt (root st) (root st1)) (nonEmptyPrefixes (getPathNodes p)))"
    by simp
  with ok again en show ?thesis by simp
qed

theorem ensureDirectory_idempotent_witness:
  "\<not> (\<lambda>p. False) ''x'' \<and> \<not> fileOnPath (root fresh) (getPathNodes ''x'') \<and>
   ensureDirectorySync (\<lambda>p. False) ''x'' fresh =
     (Inr (), \<lparr>root = Directory [] [] [Dir (Directory ''x'' ''x'' [])],
               emitted = [DirectoryCreated ''x'']\<rparr>) \<and>
   ensureDirectorySync (\<lambda>p. False) ''x''
     \<lparr>root = Directory [] [] [Dir (Directory ''x'' ''x'' [])], emitted = [DirectoryCreated ''x'']\<rparr> =
     (Inr (), \<lparr>root = Directory [] [] [Dir (Directory ''x'' ''x'' [])],
               emitted = [DirectoryCreated ''x'']\<rparr>)"
proof -
  have h1: "\<not> (\<lambda>p. False) ''x''" by simp
  have h2: "\<not> fileOnPath (root fresh) (getPathNodes ''x'')" by code_simp
  have s: "snd (ensureDirectorySync (\<lambda>p. False) ''x'' fresh) =
     \<lparr>root = Directory [] [] [Dir (Directory ''x'' ''x'' [])], emitted = [DirectoryCreated ''x'']\<rparr>"
    by code_simp
  from ensureDirectory_idempotent[of "\<lambda>p. False" "''x''" fresh, OF h1 h2]
  have "fst (ensureDirectorySync (\<lambda>p. False) ''x'' fresh) = Inr ()"
    and "ensureDirectorySync (\<lambda>p. False) ''x'' (snd (ensureDirectorySync (\<lambda>p. False) ''x'' fresh)) =
           (Inr (), snd (ensureDirectorySync (\<lambda>p. False) ''x'' fresh))"
    by blast+
  with s h2 show ?thesis by (simp add: prod_eq_iff)
qed

subsection \<open>C9: a failed saveFile changes nothing\<close>

text \<open>
  Claim C9. Whenever \<open>saveFile(p, c)\<close> throws, for whatever reason, the store after the
  call is the store before it: the tree is the same and no event has been emitted.
  The one place where the method throws after a call that may have mutated the tree is the
  check for a directory under the target name, after \<open>ensureDirectorySync\<close>; a directory
  that \<open>ensureDirectorySync\<close> has just created has no child, so there the tree was not
  touched either.
\<close>

theorem saveFile_failure_leaves_store:
  assumes "fst (saveFileSync isIgnored p c st) = Inl e"
  shows "snd (saveFileSync isIgnored p c st) = st"
proof (cases "isIgnored p \<or> getPathNodes p = [] \<or> last (getPathNodes p) = []")
  case True
  then show ?thesis by (auto simp: saveFileSync_def)
next
  case False
  let ?nodes = "getPathNodes p"
  let ?q = "join pathSeparator (butlast ?nodes)"
  obtain r st1 where en: "ensureDirectorySync isIgnored ?q st = (r, st1)"
    by (cases "ensureDirectorySync isIgnored ?q st") auto
  show ?thesis
  proof (cases r)
    case (Inl e')
    with en have "st1 = st" using ensureDirectorySync_fail_unchanged by blast
    with False en Inl show ?thesis by (simp add: saveFileSync_def Let_def)
  next
    case (Inr u)
    from ensureDirectorySync_ok_target[of isIgnored ?q st u st1] en Inr obtain d where
      d: "getPathTarget st1 (butlast ?nodes) = Some d"
         "getPathTarget st (butlast ?nodes) = None \<longrightarrow> children d = []"
         "getPathTarget st (butlast ?nodes) \<noteq> None \<longrightarrow> st1 = st"
      by (auto simp: getPathNodes_butlast_join)
    show ?thesis
    proof (cases "find_by_name (children d) (last ?nodes)")
      case None
      with assms False en Inr d show ?thesis by (simp add: saveFileSync_def Let_def)
    next
      case (Some ch)
      then have "children d \<noteq> []" by auto
      with d have "st1 = st" by blast
      with assms False en Inr d Some show ?thesis
        by (cases ch) (auto simp: saveFileSync_def Let_def split: if_splits)
    qed
  qed
qed

theorem saveFile_failure_leaves_store_witness:
  "fst (saveFileSync (\<lambda>p. False) ''d'' ''x'' (snd (ensureDirectorySync (\<lambda>p. False) ''d'' fresh)))
     = Inl (FileSaveError ''d'') \<and>
   snd (saveFileSync (\<lambda>p. False) ''d'' ''x'' (snd (ensureDirectorySync (\<lambda>p. False) ''d'' fresh)))
     = snd (ensureDirectorySync (\<lambda>p. False) ''d'' fresh) \<and>
   snd (ensureDirectorySync (\<lambda>p. False) ''d'' fresh)
     = \<lparr>root = Directory [] [] [Dir (Directory ''d'' ''d'' [])], emitted = [DirectoryCreated ''d'']\<rparr>"
proof -
  have h: "fst (saveFileSync (\<lambda>p. False) ''d'' ''x'' (snd (ensureDirectorySync (\<lambda>p. False) ''d'' fresh)))
     = Inl (FileSaveError ''d'')"
    by code_simp
  have s: "snd (ensureDirectorySync (\<lambda>p. False) ''d'' fresh)
     = \<lparr>root = Directory [] [] [Dir (Directory ''d'' ''d'' [])], emitted = [DirectoryCreated ''d'']\<rparr>"
    by code_simp
  from saveFile_failure_leaves_store[OF h] h s show ?thesis by simp
qed

subsection \<open>C10: the read operations\<close>

text \<open>
  Claim C10. \<open>loadTextFile\<close>, \<open>loadDirectoryTree\<close> and \<open>loadDirectoryChildren\<close> leave the
  store as it was, tree and emitted events, for every path, every ignore predicate and
  every store, whether they return or throw.
\<close>

theorem reads_leave_store:
  "snd (loadTextFileSync isIgnored p st) = st \<and>
   snd (loadDirectoryTreeSync isIgnored po st) = st \<and>
   snd (loadDirectoryChildrenSync isIgnored p st) = st"
  by (simp add: loadTextFileSync_def loadDirectoryTreeSync_def loadDirectoryChildrenSync_def
      Let_def split: option.splits node.splits)

end
